theory Spec2Isabelle
  imports Main "HOL-Library.Word"
begin

section \<open>JavaScript values used by the media middleware\<close>

text \<open>
  The middleware of \<^verbatim>\<open>registerRoutes\<close> (mounted on \<^verbatim>\<open>/uploads\<close>) works on
  strings, on numbers produced by \<^verbatim>\<open>parseInt\<close> and on \<^verbatim>\<open>null\<close>. A string is the
  list of the bytes of its UTF-8 encoding. A number is either \<^verbatim>\<open>NaN\<close> or an integer;
  \<^verbatim>\<open>null\<close> is \<open>None\<close> of an option type. Integers are unbounded here: the rounding
  of values beyond \<open>2^53\<close> to a double, and the exponent notation of values from
  \<open>10^21\<close> on, are not part of the model.
\<close>

type_synonym bytes = "8 word list"

datatype jsnum = NaN | Num int

datatype error =
  TypeError | ReadError | DecodeError | ResizeError | EncodeError | StorageError

text \<open>Truthiness of \<^verbatim>\<open>number | null\<close>: \<^verbatim>\<open>null\<close>, \<^verbatim>\<open>NaN\<close> and \<^verbatim>\<open>0\<close> are falsy.\<close>

fun truthy :: "jsnum option \<Rightarrow> bool" where
  "truthy None = False"
| "truthy (Some NaN) = False"
| "truthy (Some (Num n)) = (n \<noteq> 0)"

text \<open>\<^verbatim>\<open>a > b\<close> for a number \<open>a\<close> and an integer literal \<open>b\<close>: false on \<^verbatim>\<open>NaN\<close>.\<close>

fun js_gt :: "jsnum \<Rightarrow> int \<Rightarrow> bool" where
  "js_gt NaN b = False"
| "js_gt (Num a) b = (a > b)"

text \<open>\<^verbatim>\<open>Math.max(10, q - 15)\<close>.\<close>

fun lower_quality :: "jsnum \<Rightarrow> jsnum" where
  "lower_quality NaN = NaN"
| "lower_quality (Num q) = Num (max 10 (q - 15))"

subsection \<open>\<^verbatim>\<open>parseInt\<close> without a radix\<close>

text \<open>
  The white space that \<^verbatim>\<open>parseInt\<close> skips: the ASCII characters, and in UTF-8 the
  no-break space U+00A0, U+1680, U+2000 to U+200A, the line and paragraph separators
  U+2028 and U+2029, U+202F, U+205F, U+3000 and the byte order mark U+FEFF.
\<close>

definition ascii_space :: "char \<Rightarrow> bool" where
  "ascii_space c \<longleftrightarrow> c \<in> set [CHR '' '', CHR 0x09, CHR 0x0A, CHR 0x0B, CHR 0x0C, CHR 0x0D]"

definition space2 :: "char \<Rightarrow> char \<Rightarrow> bool" where
  "space2 a b \<longleftrightarrow> a = CHR 0xC2 \<and> b = CHR 0xA0"

definition space3 :: "char \<Rightarrow> char \<Rightarrow> char \<Rightarrow> bool" where
  "space3 a b c \<longleftrightarrow>
     (a = CHR 0xE1 \<and> b = CHR 0x9A \<and> c = CHR 0x80)
     \<or> (a = CHR 0xE2 \<and> b = CHR 0x80
        \<and> ((0x80 :: nat) \<le> of_char c \<and> of_char c \<le> (0x8A :: nat)
           \<or> c \<in> set [CHR 0xA8, CHR 0xA9, CHR 0xAF]))
     \<or> (a = CHR 0xE2 \<and> b = CHR 0x81 \<and> c = CHR 0x9F)
     \<or> (a = CHR 0xE3 \<and> b = CHR 0x80 \<and> c = CHR 0x80)
     \<or> (a = CHR 0xEF \<and> b = CHR 0xBB \<and> c = CHR 0xBF)"

fun skip_js_space :: "string \<Rightarrow> string" where
  "skip_js_space (a # b # c # rest) =
     (if ascii_space a then skip_js_space (b # c # rest)
      else if space2 a b then skip_js_space (c # rest)
      else if space3 a b c then skip_js_space rest
      else a # b # c # rest)"
| "skip_js_space [a, b] =
     (if ascii_space a then skip_js_space [b] else if space2 a b then [] else [a, b])"
| "skip_js_space [a] = (if ascii_space a then [] else [a])"
| "skip_js_space [] = []"

definition digit_val :: "char \<Rightarrow> nat option" where
  "digit_val c =
     (let n = (of_char c :: nat) in
      if 48 \<le> n \<and> n \<le> 57 then Some (n - 48)
      else if 97 \<le> n \<and> n \<le> 102 then Some (n - 87)
      else if 65 \<le> n \<and> n \<le> 70 then Some (n - 55)
      else None)"

definition is_digit_in :: "nat \<Rightarrow> char \<Rightarrow> bool" where
  "is_digit_in radix c = (case digit_val c of None \<Rightarrow> False | Some d \<Rightarrow> d < radix)"

definition digits_value :: "nat \<Rightarrow> string \<Rightarrow> nat" where
  "digits_value radix ds = foldl (\<lambda>acc c. acc * radix + the (digit_val c)) 0 ds"

text \<open>
  Leading white space is skipped, a sign is read, a prefix \<^verbatim>\<open>0x\<close> or \<^verbatim>\<open>0X\<close>
  selects radix 16, and the longest run of digits is the value; no digit at all gives
  \<^verbatim>\<open>NaN\<close>. \<open>digits_value\<close> is only applied to characters that \<open>is_digit_in\<close> accepted.
\<close>

definition parseInt :: "string \<Rightarrow> jsnum" where
  "parseInt s =
     (let t = skip_js_space s;
          neg = (case t of c # _ \<Rightarrow> c = CHR ''-'' | [] \<Rightarrow> False);
          u = (case t of c # r \<Rightarrow> if c = CHR ''-'' \<or> c = CHR ''+'' then r else t | [] \<Rightarrow> t);
          hex = (take 2 u = ''0x'' \<or> take 2 u = ''0X'');
          radix = (if hex then 16 else 10);
          v = (if hex then drop 2 u else u);
          ds = takeWhile (is_digit_in radix) v
      in if ds = [] then NaN
         else Num ((if neg then -1 else 1) * int (digits_value radix ds)))"

subsection \<open>Query parameters\<close>

text \<open>
  The extended query parser of Express gives a parameter as a string, as an array, or as
  an object with string keys (\<^verbatim>\<open>?w[a]=1\<close>); the source casts it to a string without
  a check. \<^verbatim>\<open>parseInt\<close> first converts its argument to a string: an array is the
  conversions of its elements joined by commas; an object is \<^verbatim>\<open>[object Object]\<close>,
  unless it has a key \<^verbatim>\<open>toString\<close>, which hides the inherited method by a value that
  cannot be called, and the conversion throws a \<^verbatim>\<open>TypeError\<close>.
\<close>

datatype qval = QStr string | QArr "qval list" | QObj "(string \<times> qval) list"

fun join_strings :: "string option list \<Rightarrow> string option" where
  "join_strings [] = Some []"
| "join_strings [x] = x"
| "join_strings (x # y # ys) =
     (case x of
        None \<Rightarrow> None
      | Some s \<Rightarrow> (case join_strings (y # ys) of None \<Rightarrow> None | Some t \<Rightarrow> Some (s @ '','' @ t)))"

fun to_string :: "qval \<Rightarrow> string option" where
  "to_string (QStr s) = Some s"
| "to_string (QArr xs) = join_strings (map to_string xs)"
| "to_string (QObj kvs) =
     (if ''toString'' \<in> set (map fst kvs) then None else Some ''[object Object]'')"

text \<open>
  \<^verbatim>\<open>req.query.x ? parseInt(req.query.x as string) : null\<close>: an absent parameter and
  the empty string are falsy and give \<^verbatim>\<open>null\<close>; anything else is converted and parsed,
  and \<open>Inl\<close> is the exception of the conversion.
\<close>

definition parse_query :: "qval option \<Rightarrow> error + jsnum option" where
  "parse_query p =
     (case p of
        None \<Rightarrow> Inr None
      | Some v \<Rightarrow>
          if v = QStr [] then Inr None
          else (case to_string v of
                  None \<Rightarrow> Inl TypeError
                | Some s \<Rightarrow> Inr (Some (parseInt s))))"

subsection \<open>Numbers inside a template literal\<close>

definition digit_char :: "nat \<Rightarrow> char" where
  "digit_char d = ''0123456789'' ! d"

fun show_nat :: "nat \<Rightarrow> string" where
  "show_nat n =
     (if n < 10 then [digit_char n]
      else show_nat (n div 10) @ [digit_char (n mod 10)])"

declare show_nat.simps [simp del]

definition show_int :: "int \<Rightarrow> string" where
  "show_int i = (if i < 0 then CHR ''-'' # show_nat (nat (- i)) else show_nat (nat i))"

fun show_num :: "jsnum \<Rightarrow> string" where
  "show_num NaN = ''NaN''"
| "show_num (Num i) = show_int i"

fun show_nullable :: "jsnum option \<Rightarrow> string" where
  "show_nullable None = ''null''"
| "show_nullable (Some v) = show_num v"

section \<open>Paths\<close>

text \<open>
  POSIX \<^verbatim>\<open>path.basename\<close>: trailing slashes are dropped and the characters after
  the last remaining slash are returned.
\<close>

definition path_basename :: "string \<Rightarrow> string" where
  "path_basename p =
     rev (takeWhile (\<lambda>c. c \<noteq> CHR ''/'') (dropWhile (\<lambda>c. c = CHR ''/'') (rev p)))"

text \<open>
  \<^verbatim>\<open>path.parse(base).ext\<close> and \<^verbatim>\<open>.name\<close> for a string without slashes: the
  extension starts at the last dot, unless there is no dot, the last dot is the first
  character, or the string is \<^verbatim>\<open>..\<close>; the name is what precedes the extension.
\<close>

definition parse_ext :: "string \<Rightarrow> string" where
  "parse_ext base =
     (let suffix_part = rev (takeWhile (\<lambda>c. c \<noteq> CHR ''.'') (rev base));
          prefix_part = rev (drop 1 (dropWhile (\<lambda>c. c \<noteq> CHR ''.'') (rev base)))
      in if CHR ''.'' \<notin> set base \<or> prefix_part = [] \<or> base = ''..'' then []
         else CHR ''.'' # suffix_part)"

definition parse_name :: "string \<Rightarrow> string" where
  "parse_name base = take (length base - length (parse_ext base)) base"

text \<open>
  An absolute, normalised path is the list of its segments. \<^verbatim>\<open>path.join(dir, s)\<close>
  splits \<open>s\<close> at slashes and normalises: empty segments and \<^verbatim>\<open>.\<close> vanish,
  \<^verbatim>\<open>..\<close> removes the segment before it.
\<close>

type_synonym path = "string list"

fun split_slash :: "string \<Rightarrow> string list" where
  "split_slash [] = [[]]"
| "split_slash (c # cs) =
     (if c = CHR ''/'' then [] # split_slash cs
      else (case split_slash cs of [] \<Rightarrow> [[c]] | x # xs \<Rightarrow> (c # x) # xs))"

definition join_segment :: "path \<Rightarrow> string \<Rightarrow> path" where
  "join_segment p seg =
     (if seg = [] \<or> seg = ''.'' then p else if seg = ''..'' then butlast p else p @ [seg])"

definition path_join :: "path \<Rightarrow> string \<Rightarrow> path" where
  "path_join dir s = foldl join_segment dir (split_slash s)"

section \<open>Format classification\<close>

definition ascii_lower :: "char \<Rightarrow> char" where
  "ascii_lower c =
     (let n = (of_char c :: nat) in if 65 \<le> n \<and> n \<le> 90 then char_of (n + 32) else c)"

definition ends_with :: "string \<Rightarrow> string \<Rightarrow> bool" where
  "ends_with s suf \<longleftrightarrow> length suf \<le> length s \<and> drop (length s - length suf) s = suf"

text \<open>
  \<^verbatim>\<open>filename.match(/\\.(e1|e2|...)$/i)\<close> as a truth value: the name ends, ignoring
  ASCII case, in a dot followed by one of the alternatives.
\<close>

definition match_ext :: "string list \<Rightarrow> string \<Rightarrow> bool" where
  "match_ext alts filename \<longleftrightarrow>
     list_ex (\<lambda>e. ends_with (map ascii_lower filename) (CHR ''.'' # e)) alts"

definition isVideo :: "string \<Rightarrow> bool" where
  "isVideo filename = match_ext [''mp4'', ''webm'', ''mov'', ''m4v'', ''3gp'', ''mkv''] filename"

definition isImage :: "string \<Rightarrow> bool" where
  "isImage filename =
     match_ext [''jpg'', ''jpeg'', ''png'', ''gif'', ''webp'', ''heic'', ''heif''] filename"

text \<open>The chain on \<^verbatim>\<open>metadata.format\<close>, which may be undefined.\<close>

definition outputFormat :: "string option \<Rightarrow> string" where
  "outputFormat fmt =
     (if fmt = Some ''jpeg'' \<or> fmt = Some ''jpg'' then ''jpeg''
      else if fmt = Some ''png'' then ''png''
      else if fmt = Some ''webp'' then ''webp''
      else ''jpeg'')"

text \<open>The argument of \<^verbatim>\<open>res.type\<close>.\<close>

definition content_type :: "string \<Rightarrow> string" where
  "content_type fmt = ''image/'' @ (if fmt = ''jpeg'' then ''jpeg'' else fmt)"

section \<open>Derivative key\<close>

definition cacheKey :: "string \<Rightarrow> jsnum option \<Rightarrow> jsnum \<Rightarrow> jsnum option \<Rightarrow> string" where
  "cacheKey filename width quality maxSize =
     parse_name filename @ ''-w'' @ show_nullable width @ ''-q'' @ show_num quality
       @ ''-m'' @ show_nullable maxSize @ parse_ext filename"

section \<open>File system, libraries and responses\<close>

text \<open>
  The file system maps an absolute path to a regular file or a directory. Requests are
  plain \<^verbatim>\<open>GET\<close> requests without conditional or range headers, handled one after
  the other, and every regular file can be read.
\<close>

datatype node = File bytes | Dir

type_synonym fs = "path \<Rightarrow> node option"

definition existsSync :: "fs \<Rightarrow> path \<Rightarrow> bool" where
  "existsSync fs p \<longleftrightarrow> fs p \<noteq> None"

text \<open>
  The image library is a parameter. \<open>metadata_format\<close> is \<^verbatim>\<open>metadata().format\<close> of
  the input bytes, \<open>valid_width\<close> says whether \<^verbatim>\<open>resize(width)\<close> accepts its
  argument, and \<open>toBuffer input w fmt q\<close> is
  \<^verbatim>\<open>toFormat(fmt, {quality: q}).toBuffer()\<close> on the instance that reads \<open>input\<close> and
  resizes to \<open>w\<close> when \<open>w\<close> is given. Each may throw.
\<close>

record sharp_lib =
  metadata_format :: "bytes \<Rightarrow> error + string option"
  valid_width :: "int \<Rightarrow> bool"
  toBuffer :: "bytes \<Rightarrow> int option \<Rightarrow> string \<Rightarrow> jsnum \<Rightarrow> error + bytes"

text \<open>
  \<^verbatim>\<open>fs.writeFileSync\<close> opens the file, which creates or empties it, and then writes.
  It completes, or it throws before the file is opened and leaves no trace, or it throws
  later and leaves the first \<open>k\<close> bytes in the file. Which of these happens is a
  parameter.
\<close>

datatype write_result = Written | Refused | Torn nat

text \<open>
  The library \<^verbatim>\<open>send\<close>, which transfers files for \<^verbatim>\<open>res.sendFile\<close> and for
  \<^verbatim>\<open>express.static\<close>, refuses paths with segments that begin with a dot. Without an
  option, as here, Express 4 refuses when the last segment begins with a dot, and
  Express 5 when any segment does.
\<close>

datatype dot_policy = LastPart | AnyPart

text \<open>
  The environment of the process: its working directory, the image library, what happens
  to a write, the content type that the table of \<^verbatim>\<open>send\<close> gives the file at a path,
  and the dot-file rule of the installed Express.
\<close>

record env =
  cwd :: path
  sharp :: sharp_lib
  write_outcome :: "path \<Rightarrow> bytes \<Rightarrow> write_result"
  mime_lookup :: "path \<Rightarrow> string"
  dotfiles :: dot_policy

definition uploadsDir :: "env \<Rightarrow> path" where
  "uploadsDir e = cwd e @ [''uploads'']"

definition resizedCacheDir :: "env \<Rightarrow> path" where
  "resizedCacheDir e = cwd e @ [''uploads'', ''.cache'']"

definition read_input :: "fs \<Rightarrow> path \<Rightarrow> error + bytes" where
  "read_input fs p = (case fs p of Some (File b) \<Rightarrow> Inr b | _ \<Rightarrow> Inl ReadError)"

text \<open>An exception of the write carries the file system that it leaves behind.\<close>

definition writeFileSync :: "env \<Rightarrow> fs \<Rightarrow> path \<Rightarrow> bytes \<Rightarrow> (error \<times> fs) + fs" where
  "writeFileSync e fs p b =
     (case write_outcome e p b of
        Written \<Rightarrow> Inr (fs(p \<mapsto> File b))
      | Refused \<Rightarrow> Inl (StorageError, fs)
      | Torn k \<Rightarrow> Inl (StorageError, fs(p \<mapsto> File (take k b))))"

text \<open>
  What a request can end in, as far as these handlers go: the next handler is called, a
  body is sent with a content type, the error handler answers with a status, the client
  is redirected (status 301), or an exception leaves the handler uncaught, so that the
  handler sends nothing.
\<close>

datatype response = Next | Sent string bytes | Failed nat | Redirected | Uncaught

subsection \<open>The rules of \<^verbatim>\<open>send\<close>\<close>

text \<open>
  A segment that contains \<^verbatim>\<open>..\<close> between backslashes or its ends counts as a step
  upwards; a segment of more than one character that begins with a dot is a dot file.
\<close>

fun split_backslash :: "string \<Rightarrow> string list" where
  "split_backslash [] = [[]]"
| "split_backslash (c # cs) =
     (if c = CHR 0x5C then [] # split_backslash cs
      else (case split_backslash cs of [] \<Rightarrow> [[c]] | x # xs \<Rightarrow> (c # x) # xs))"

definition up_segment :: "string \<Rightarrow> bool" where
  "up_segment s \<longleftrightarrow> ''..'' \<in> set (split_backslash s)"

definition has_nul :: "string \<Rightarrow> bool" where
  "has_nul s \<longleftrightarrow> CHR 0x00 \<in> set s"

definition starts_with_dot :: "string \<Rightarrow> bool" where
  "starts_with_dot s = (case s of [] \<Rightarrow> False | c # _ \<Rightarrow> c = CHR ''.'')"

definition dot_named :: "string \<Rightarrow> bool" where
  "dot_named s \<longleftrightarrow> 1 < length s \<and> starts_with_dot s"

definition dot_refused :: "dot_policy \<Rightarrow> string list \<Rightarrow> bool" where
  "dot_refused policy parts \<longleftrightarrow>
     list_ex dot_named parts
     \<and> (case policy of
          AnyPart \<Rightarrow> True
        | LastPart \<Rightarrow> (case rev parts of [] \<Rightarrow> False | l # _ \<Rightarrow> starts_with_dot l))"

text \<open>
  \<^verbatim>\<open>res.sendFile(p)\<close> for an absolute path: a null byte is status 400, a step upwards
  403, a refused dot file 404, and so is a missing file; each is an error passed to the
  error handler. On a directory \<^verbatim>\<open>next()\<close> is called. Otherwise the file is sent.
\<close>

definition send_refusal :: "env \<Rightarrow> path \<Rightarrow> nat option" where
  "send_refusal e p =
     (if list_ex has_nul p then Some 400
      else if list_ex up_segment p then Some 403
      else if dot_refused (dotfiles e) p then Some 404
      else None)"

definition sendFile :: "env \<Rightarrow> fs \<Rightarrow> path \<Rightarrow> response" where
  "sendFile e fs p =
     (case send_refusal e p of
        Some status \<Rightarrow> Failed status
      | None \<Rightarrow>
         (case fs p of
            Some (File b) \<Rightarrow> Sent (mime_lookup e p) b
          | Some Dir \<Rightarrow> Next
          | None \<Rightarrow> Failed 404))"

subsection \<open>\<^verbatim>\<open>decodeURIComponent\<close>\<close>

text \<open>
  An escape \<^verbatim>\<open>%XY\<close> below \<open>0x80\<close> is that character. A larger first byte announces a
  UTF-8 sequence of two to four bytes, each of which must be escaped, and which must
  encode a code point; the bytes of the sequence are the result. Anything else throws.
\<close>

definition hex_pair :: "string \<Rightarrow> nat option" where
  "hex_pair s =
     (case s of
        h # l # _ \<Rightarrow>
          (case (digit_val h, digit_val l) of
             (Some a, Some b) \<Rightarrow> Some (16 * a + b)
           | _ \<Rightarrow> None)
      | _ \<Rightarrow> None)"

fun escapes :: "nat \<Rightarrow> string \<Rightarrow> nat list option" where
  "escapes 0 s = Some []"
| "escapes (Suc n) s =
     (case s of
        [] \<Rightarrow> None
      | c # rest \<Rightarrow>
          if c = CHR ''%'' then
            (case hex_pair rest of
               None \<Rightarrow> None
             | Some b \<Rightarrow> map_option ((#) b) (escapes n (drop 2 rest)))
          else None)"

definition continuation :: "nat \<Rightarrow> bool" where
  "continuation b \<longleftrightarrow> 0x80 \<le> b \<and> b \<le> 0xBF"

definition utf8_length :: "nat \<Rightarrow> nat option" where
  "utf8_length b =
     (if 0xC0 \<le> b \<and> b \<le> 0xDF then Some 2
      else if 0xE0 \<le> b \<and> b \<le> 0xEF then Some 3
      else if 0xF0 \<le> b \<and> b \<le> 0xF7 then Some 4
      else None)"

fun utf8_valid :: "nat list \<Rightarrow> bool" where
  "utf8_valid [a, b] = (0xC2 \<le> a \<and> a \<le> 0xDF \<and> continuation b)"
| "utf8_valid [a, b, c] =
     ((a = 0xE0 \<and> 0xA0 \<le> b \<and> b \<le> 0xBF
       \<or> 0xE1 \<le> a \<and> a \<le> 0xEC \<and> continuation b
       \<or> a = 0xED \<and> 0x80 \<le> b \<and> b \<le> 0x9F
       \<or> 0xEE \<le> a \<and> a \<le> 0xEF \<and> continuation b)
      \<and> continuation c)"
| "utf8_valid [a, b, c, d] =
     ((a = 0xF0 \<and> 0x90 \<le> b \<and> b \<le> 0xBF
       \<or> 0xF1 \<le> a \<and> a \<le> 0xF3 \<and> continuation b
       \<or> a = 0xF4 \<and> 0x80 \<le> b \<and> b \<le> 0x8F)
      \<and> continuation c \<and> continuation d)"
| "utf8_valid bs = False"

text \<open>
  What follows a percent sign: the decoded bytes and the number of characters that the
  escape takes after the sign.
\<close>

definition read_escape :: "string \<Rightarrow> (string \<times> nat) option" where
  "read_escape cs =
     (case hex_pair cs of
        None \<Rightarrow> None
      | Some b \<Rightarrow>
          if b < 0x80 then Some ([char_of b], 2)
          else
            (case utf8_length b of
               None \<Rightarrow> None
             | Some n \<Rightarrow>
                (case escapes (n - 1) (drop 2 cs) of
                   None \<Rightarrow> None
                 | Some bs \<Rightarrow>
                     if utf8_valid (b # bs) then Some (map char_of (b # bs), 2 + 3 * (n - 1))
                     else None)))"

function decodeURIComponent :: "string \<Rightarrow> string option" where
  "decodeURIComponent [] = Some []"
| "decodeURIComponent (c # cs) =
     (if c \<noteq> CHR ''%'' then map_option ((#) c) (decodeURIComponent cs)
      else
        (case read_escape cs of
           None \<Rightarrow> None
         | Some (bs, k) \<Rightarrow> map_option ((@) bs) (decodeURIComponent (drop k cs))))"
  by pat_completeness auto
termination
  by (relation "measure length") auto

section \<open>Transform pipeline\<close>

text \<open>\<^verbatim>\<open>maxSize * 1024\<close> and \<^verbatim>\<open>buffer.length > maxSize * 1024\<close>.\<close>

fun times_1024 :: "jsnum option \<Rightarrow> jsnum" where
  "times_1024 None = Num 0"
| "times_1024 (Some NaN) = NaN"
| "times_1024 (Some (Num m)) = Num (m * 1024)"

fun length_gt :: "bytes \<Rightarrow> jsnum \<Rightarrow> bool" where
  "length_gt b NaN = False"
| "length_gt b (Num k) = (int (length b) > k)"

text \<open>
  The \<^verbatim>\<open>while\<close> loop of the size constraint. \<open>enc\<close> re-encodes at a quality; the
  state is \<^verbatim>\<open>finalBuffer\<close>, \<^verbatim>\<open>adjustedQuality\<close> and \<^verbatim>\<open>attempts\<close>, which are
  returned when the loop ends.
\<close>

function shrink_loop ::
  "(jsnum \<Rightarrow> error + bytes) \<Rightarrow> jsnum option \<Rightarrow> bytes \<Rightarrow> jsnum \<Rightarrow> nat
     \<Rightarrow> error + (bytes \<times> jsnum \<times> nat)" where
  "shrink_loop enc maxSize finalBuffer adjustedQuality attempts =
     (if length_gt finalBuffer (times_1024 maxSize) \<and> js_gt adjustedQuality 10 \<and> attempts < 5
      then (case enc (lower_quality adjustedQuality) of
              Inl err \<Rightarrow> Inl err
            | Inr b \<Rightarrow> shrink_loop enc maxSize b (lower_quality adjustedQuality) (attempts + 1))
      else Inr (finalBuffer, adjustedQuality, attempts))"
  by pat_completeness auto
termination
  by (relation "measure (\<lambda>(enc, maxSize, b, q, n). 5 - n)") auto

declare shrink_loop.simps [simp del]

text \<open>\<^verbatim>\<open>if (width) sharpInstance = sharpInstance.resize(width)\<close>.\<close>

definition resize_step :: "sharp_lib \<Rightarrow> jsnum option \<Rightarrow> error + int option" where
  "resize_step lib width =
     (if truthy width then
        (case width of
           Some (Num w) \<Rightarrow> if valid_width lib w then Inr (Some w) else Inl ResizeError
         | _ \<Rightarrow> Inr None)
      else Inr None)"

text \<open>
  From the bytes of the original to the output format and the buffer that is cached and
  sent: metadata, optional resize, first encode, and the loop when \<^verbatim>\<open>maxSize\<close> is
  truthy and the first buffer is too long.
\<close>

definition transform ::
  "sharp_lib \<Rightarrow> bytes \<Rightarrow> jsnum option \<Rightarrow> jsnum \<Rightarrow> jsnum option \<Rightarrow> error + (string \<times> bytes)" where
  "transform lib input width quality maxSize =
     (case metadata_format lib input of
        Inl err \<Rightarrow> Inl err
      | Inr fmt \<Rightarrow>
         (case resize_step lib width of
            Inl err \<Rightarrow> Inl err
          | Inr w \<Rightarrow>
             (case toBuffer lib input w (outputFormat fmt) quality of
                Inl err \<Rightarrow> Inl err
              | Inr resizedImgBuffer \<Rightarrow>
                 if truthy maxSize \<and> length_gt resizedImgBuffer (times_1024 maxSize) then
                   (case shrink_loop (toBuffer lib input w (outputFormat fmt)) maxSize
                           resizedImgBuffer quality 0 of
                      Inl err \<Rightarrow> Inl err
                    | Inr (finalBuffer, q, n) \<Rightarrow> Inr (outputFormat fmt, finalBuffer))
                 else Inr (outputFormat fmt, resizedImgBuffer))))"

section \<open>Serving middleware\<close>

text \<open>
  A request carries \<^verbatim>\<open>req.path\<close>, the path below the mount point, and the three
  query parameters. \<open>bare_mount\<close> says that the URL is the mount path itself without a
  slash at its end, for which \<^verbatim>\<open>req.path\<close> is \<^verbatim>\<open>/\<close> all the same.
\<close>

record request =
  req_path :: string
  bare_mount :: bool
  query_w :: "qval option"
  query_q :: "qval option"
  query_maxSize :: "qval option"

definition req_filename :: "request \<Rightarrow> string" where
  "req_filename r = path_basename (req_path r)"

definition req_filePath :: "env \<Rightarrow> request \<Rightarrow> path" where
  "req_filePath e r = path_join (uploadsDir e) (req_filename r)"

text \<open>
  The three assignments of the source run in this order before the try block, so an
  exception in one of them leaves the handler. \<open>req_width\<close>, \<open>req_quality\<close> and
  \<open>req_maxSize\<close> are the values assigned when none of them throws.
\<close>

definition parsing_throws :: "request \<Rightarrow> bool" where
  "parsing_throws r \<longleftrightarrow>
     isl (parse_query (query_w r)) \<or> isl (parse_query (query_q r))
     \<or> isl (parse_query (query_maxSize r))"

definition req_width :: "request \<Rightarrow> jsnum option" where
  "req_width r = (case parse_query (query_w r) of Inl err \<Rightarrow> None | Inr w \<Rightarrow> w)"

definition req_quality :: "request \<Rightarrow> jsnum" where
  "req_quality r =
     (case parse_query (query_q r) of
        Inl err \<Rightarrow> NaN
      | Inr None \<Rightarrow> Num 85
      | Inr (Some q) \<Rightarrow> q)"

definition req_maxSize :: "request \<Rightarrow> jsnum option" where
  "req_maxSize r = (case parse_query (query_maxSize r) of Inl err \<Rightarrow> None | Inr m \<Rightarrow> m)"

text \<open>The condition under which the middleware calls \<^verbatim>\<open>next()\<close> before the try block.\<close>

definition skip_processing :: "request \<Rightarrow> bool" where
  "skip_processing r \<longleftrightarrow>
     isVideo (req_filename r) \<or> \<not> isImage (req_filename r)
     \<or> (\<not> truthy (req_width r) \<and> \<not> truthy (req_maxSize r) \<and> req_quality r = Num 85)"

definition req_cachePath :: "env \<Rightarrow> request \<Rightarrow> path" where
  "req_cachePath e r =
     path_join (resizedCacheDir e)
       (cacheKey (req_filename r) (req_width r) (req_quality r) (req_maxSize r))"

text \<open>
  The body of the \<^verbatim>\<open>try\<close> block; \<open>Inl\<close> is an exception on its way to the
  \<^verbatim>\<open>catch\<close>, with the file system at that moment. Both branches of the source end in
  the same write, type and send, which appear once here.
\<close>

definition process :: "env \<Rightarrow> fs \<Rightarrow> request \<Rightarrow> (error \<times> fs) + (response \<times> fs)" where
  "process e fs r =
     (if existsSync fs (req_cachePath e r) then Inr (sendFile e fs (req_cachePath e r), fs)
      else
        (case read_input fs (req_filePath e r) of
           Inl err \<Rightarrow> Inl (err, fs)
         | Inr input \<Rightarrow>
            (case transform (sharp e) input (req_width r) (req_quality r) (req_maxSize r) of
               Inl err \<Rightarrow> Inl (err, fs)
             | Inr (fmt, buf) \<Rightarrow>
                (case writeFileSync e fs (req_cachePath e r) buf of
                   Inl failure \<Rightarrow> Inl failure
                 | Inr fs' \<Rightarrow> Inr (Sent (content_type fmt) buf, fs')))))"

definition resize_middleware :: "env \<Rightarrow> fs \<Rightarrow> request \<Rightarrow> response \<times> fs" where
  "resize_middleware e fs r =
     (if \<not> existsSync fs (req_filePath e r) then (Next, fs)
      else if parsing_throws r then (Uncaught, fs)
      else if skip_processing r then (Next, fs)
      else (case process e fs r of Inl (err, fs') \<Rightarrow> (Next, fs') | Inr out \<Rightarrow> out))"

text \<open>
  \<^verbatim>\<open>express.static(uploadsDir)\<close>, the next handler. It decodes the request path,
  resolves it below the root, and calls \<^verbatim>\<open>next()\<close> when the path cannot be decoded,
  contains a null byte, leaves the root, is refused as a dot file or names nothing. A
  request path that ends in a slash is answered with the \<^verbatim>\<open>index.html\<close> of the
  directory; a directory named without the slash is a redirect; a regular file is sent.
  A path that ends in a slash only after decoding (\<^verbatim>\<open>%2F\<close>) names a directory or
  nothing.
\<close>

definition ends_in_slash :: "string \<Rightarrow> bool" where
  "ends_in_slash s \<longleftrightarrow> s \<noteq> [] \<and> last s = CHR ''/''"

fun below_root :: "string list \<Rightarrow> string list \<Rightarrow> string list option" where
  "below_root acc [] = Some acc"
| "below_root acc (seg # segs) =
     (if seg = [] \<or> seg = ''.'' then below_root acc segs
      else if seg = ''..'' then (if acc = [] then None else below_root (butlast acc) segs)
      else below_root (acc @ [seg]) segs)"

definition serve_path :: "env \<Rightarrow> fs \<Rightarrow> path \<Rightarrow> bool \<Rightarrow> response" where
  "serve_path e fs full trailing =
     (if trailing then
        (case fs (full @ [''index.html'']) of
           Some (File b) \<Rightarrow> Sent (mime_lookup e (full @ [''index.html''])) b
         | _ \<Rightarrow> Next)
      else
        (case fs full of
           Some (File b) \<Rightarrow> Sent (mime_lookup e full) b
         | Some Dir \<Rightarrow> Redirected
         | None \<Rightarrow> Next))"

definition express_static :: "env \<Rightarrow> fs \<Rightarrow> request \<Rightarrow> response" where
  "express_static e fs r =
     (if req_path r = ''/'' \<and> bare_mount r then serve_path e fs (uploadsDir e) False
      else
        (case decodeURIComponent (req_path r) of
           None \<Rightarrow> Next
         | Some p \<Rightarrow>
             if has_nul p then Next
             else
               (case below_root [] (split_slash p) of
                  None \<Rightarrow> Next
                | Some rel \<Rightarrow>
                    if list_ex up_segment rel then Next
                    else if dot_refused (dotfiles e) (if ends_in_slash p then rel @ [[]] else rel)
                    then Next
                    else if ends_in_slash (req_path r) then
                      serve_path e fs (uploadsDir e @ rel) True
                    else if ends_in_slash p then
                      (case fs (uploadsDir e @ rel) of Some Dir \<Rightarrow> Redirected | _ \<Rightarrow> Next)
                    else serve_path e fs (uploadsDir e @ rel) False)))"

text \<open>The two handlers mounted on \<^verbatim>\<open>/uploads\<close>, in order.\<close>

definition uploads_route :: "env \<Rightarrow> fs \<Rightarrow> request \<Rightarrow> response \<times> fs" where
  "uploads_route e fs r =
     (case resize_middleware e fs r of
        (Next, fs') \<Rightarrow> (express_static e fs' r, fs')
      | out \<Rightarrow> out)"

section \<open>Notions used to state the properties\<close>

text \<open>
  The quality ladder in the words of the specification: the qualities that the loop may
  try, starting after quality \<open>q\<close> with \<open>n\<close> attempts made, and the search that
  re-encodes along a list of qualities until the buffer fits or the list ends.
\<close>

function ladder :: "jsnum \<Rightarrow> nat \<Rightarrow> jsnum list" where
  "ladder q n =
     (if js_gt q 10 \<and> n < 5 then lower_quality q # ladder (lower_quality q) (n + 1) else [])"
  by pat_completeness auto
termination
  by (relation "measure (\<lambda>(q, n). 5 - n)") auto

declare ladder.simps [simp del]

fun try_ladder ::
  "(jsnum \<Rightarrow> error + bytes) \<Rightarrow> jsnum option \<Rightarrow> bytes \<Rightarrow> jsnum list \<Rightarrow> error + bytes" where
  "try_ladder enc maxSize buf [] = Inr buf"
| "try_ladder enc maxSize buf (q # qs) =
     (if length_gt buf (times_1024 maxSize) then
        (case enc q of Inl err \<Rightarrow> Inl err | Inr b \<Rightarrow> try_ladder enc maxSize b qs)
      else Inr buf)"

text \<open>A path lies directly inside a directory when dropping its last segment gives it.\<close>

definition directly_inside :: "path \<Rightarrow> path \<Rightarrow> bool" where
  "directly_inside dir p \<longleftrightarrow> p \<noteq> [] \<and> butlast p = dir"




text \<open>
  A name that a request path \<^verbatim>\<open>/name\<close> hands to \<^verbatim>\<open>express.static\<close> unchanged: not
  empty, not beginning with a dot, and free of slashes, percent signs, backslashes and
  null bytes.
\<close>

definition plain_name :: "string \<Rightarrow> bool" where
  "plain_name name \<longleftrightarrow>
     name \<noteq> [] \<and> \<not> starts_with_dot name
     \<and> list_all (\<lambda>c. c \<notin> set [CHR ''/'', CHR ''%'', CHR 0x5C, CHR 0x00]) name"

text \<open>A request all of whose parameters are absent or strings.\<close>

definition string_param :: "qval option \<Rightarrow> bool" where
  "string_param p = (case p of None \<Rightarrow> True | Some (QStr s) \<Rightarrow> True | Some v \<Rightarrow> False)"

definition string_params :: "request \<Rightarrow> bool" where
  "string_params r \<longleftrightarrow>
     string_param (query_w r) \<and> string_param (query_q r) \<and> string_param (query_maxSize r)"

subsection \<open>A sample installation\<close>

text \<open>
  An image library that recognises a file by its first byte, whose PNG output has 2000
  bytes at every quality and whose other output has twenty bytes per unit of quality; a
  content type table for a few extensions; a process running in \<^verbatim>\<open>/app\<close> under
  Express 4, once with a disk that completes every write and once with a full disk, on
  which a write creates the file and fails at the first byte; and a few uploads: a JPEG,
  a GIF, a PNG, a text file named like a PNG, and a video.
\<close>

definition demo_lib :: sharp_lib where
  "demo_lib =
     \<lparr> metadata_format = (\<lambda>input.
          case input of
            [] \<Rightarrow> Inl DecodeError
          | x # _ \<Rightarrow>
              if x = 0xFF then Inr (Some ''jpeg'')
              else if x = 0x89 then Inr (Some ''png'')
              else if x = 0x47 then Inr (Some ''gif'')
              else Inl DecodeError),
       valid_width = (\<lambda>w. 0 < w),
       toBuffer = (\<lambda>input w fmt q.
          case q of
            NaN \<Rightarrow> Inl EncodeError
          | Num n \<Rightarrow>
              if 1 \<le> n \<and> n \<le> 100 then
                Inr (replicate (if fmt = ''png'' then 2000 else nat n * 20) 0)
              else Inl EncodeError) \<rparr>"

definition demo_mime :: "path \<Rightarrow> string" where
  "demo_mime p =
     (case rev p of
        [] \<Rightarrow> ''application/octet-stream''
      | name # _ \<Rightarrow>
         (let x = map ascii_lower (rev (takeWhile (\<lambda>c. c \<noteq> CHR ''.'') (rev name)))
          in if x = ''jpg'' \<or> x = ''jpeg'' then ''image/jpeg''
             else if x = ''png'' then ''image/png''
             else if x = ''gif'' then ''image/gif''
             else if x = ''webp'' then ''image/webp''
             else if x = ''mp4'' then ''video/mp4''
             else if x = ''html'' then ''text/html; charset=UTF-8''
             else ''application/octet-stream''))"

definition demo_env :: env where
  "demo_env =
     \<lparr> cwd = [''app''], sharp = demo_lib, write_outcome = (\<lambda>p b. Written),
       mime_lookup = demo_mime, dotfiles = LastPart \<rparr>"

definition full_disk_env :: env where
  "full_disk_env =
     \<lparr> cwd = [''app''], sharp = demo_lib, write_outcome = (\<lambda>p b. Torn 0),
       mime_lookup = demo_mime, dotfiles = LastPart \<rparr>"

definition demo_fs :: fs where
  "demo_fs =
     [ [''app''] \<mapsto> Dir,
       [''app'', ''uploads''] \<mapsto> Dir,
       [''app'', ''uploads'', ''.cache''] \<mapsto> Dir,
       [''app'', ''uploads'', ''photo.jpg''] \<mapsto> File [0xFF, 0xD8, 0xFF],
       [''app'', ''uploads'', ''anim.gif''] \<mapsto> File [0x47, 0x49, 0x46],
       [''app'', ''uploads'', ''chart.png''] \<mapsto> File [0x89, 0x50, 0x4E],
       [''app'', ''uploads'', ''notes.png''] \<mapsto> File [0x68, 0x69],
       [''app'', ''uploads'', ''clip.mp4''] \<mapsto> File [0x00, 0x00] ]"

text \<open>A request with string parameters, and one with arbitrary parameters.\<close>

definition get :: "string \<Rightarrow> string option \<Rightarrow> string option \<Rightarrow> string option \<Rightarrow> request" where
  "get p w q m =
     \<lparr> req_path = p, bare_mount = False, query_w = map_option QStr w,
       query_q = map_option QStr q, query_maxSize = map_option QStr m \<rparr>"


section \<open>The size-constraint loop\<close>

lemma shrink_loop_stop:
  assumes "\<not> (length_gt b (times_1024 m) \<and> js_gt q 10 \<and> n < 5)"
  shows "shrink_loop enc m b q n = Inr (b, q, n)"
  by (subst shrink_loop.simps) (simp add: assms)

lemma shrink_loop_step:
  assumes "length_gt b (times_1024 m) \<and> js_gt q 10 \<and> n < 5"
  shows "shrink_loop enc m b q n =
           (case enc (lower_quality q) of
              Inl err \<Rightarrow> Inl err
            | Inr b1 \<Rightarrow> shrink_loop enc m b1 (lower_quality q) (n + 1))"
  by (subst shrink_loop.simps) (simp add: assms)

lemma ladder_stop:
  assumes "\<not> (js_gt q 10 \<and> n < 5)"
  shows "ladder q n = []"
  by (subst ladder.simps) (simp add: assms)

lemma ladder_step:
  assumes "js_gt q 10 \<and> n < 5"
  shows "ladder q n = lower_quality q # ladder (lower_quality q) (n + 1)"
  by (subst ladder.simps) (simp add: assms)

text \<open>What holds when the loop ends: one of its three guards has failed.\<close>

lemma shrink_loop_exit:
  "shrink_loop enc m b q n = Inr (fb, q', n') \<Longrightarrow> n \<le> 5 \<Longrightarrow>
     (\<not> length_gt fb (times_1024 m) \<or> \<not> js_gt q' 10 \<or> n' = 5) \<and> n \<le> n' \<and> n' \<le> 5"
proof (induction enc m b q n rule: shrink_loop.induct)
  case (1 enc m b q n)
  show ?case
  proof (cases "length_gt b (times_1024 m) \<and> js_gt q 10 \<and> n < 5")
    case True
    from "1.prems"(1) obtain b1 where e: "enc (lower_quality q) = Inr b1"
      and r: "shrink_loop enc m b1 (lower_quality q) (n + 1) = Inr (fb, q', n')"
      unfolding shrink_loop_step[OF True] by (cases "enc (lower_quality q)") simp_all
    from True have "n + 1 \<le> 5" by simp
    with "1.IH"[OF True e r] show ?thesis by simp
  next
    case False
    from "1.prems"(1) have "fb = b" "q' = q" "n' = n"
      unfolding shrink_loop_stop[OF False] by simp_all
    moreover from False
    have "\<not> length_gt b (times_1024 m) \<or> \<not> js_gt q 10 \<or> \<not> n < 5"
      by simp
    ultimately show ?thesis using "1.prems"(2) by auto
  qed
qed

text \<open>From quality 85 the quality after \<open>n\<close> attempts is \<open>85 - 15 n\<close>.\<close>

lemma shrink_loop_default:
  "shrink_loop enc m b (Num (85 - 15 * int n)) n = Inr (fb, q', n') \<Longrightarrow> n \<le> 5 \<Longrightarrow>
     q' = Num (85 - 15 * int n')"
proof (induction enc m b "Num (85 - 15 * int n)" n rule: shrink_loop.induct)
  case (1 enc m b n)
  let ?q = "Num (85 - 15 * int n)"
  show ?case
  proof (cases "length_gt b (times_1024 m) \<and> js_gt ?q 10 \<and> n < 5")
    case True
    have lq: "lower_quality ?q = Num (85 - 15 * int (n + 1))"
      using True by simp
    from "1.prems"(1) obtain b1 where e: "enc (lower_quality ?q) = Inr b1"
      and r: "shrink_loop enc m b1 (lower_quality ?q) (n + 1) = Inr (fb, q', n')"
      unfolding shrink_loop_step[OF True] by (cases "enc (lower_quality ?q)") simp_all
    from True have "n + 1 \<le> 5" by simp
    from "1.hyps"[OF True e lq] r lq this show ?thesis by simp
  next
    case False
    from "1.prems"(1) show ?thesis
      unfolding shrink_loop_stop[OF False] by auto
  qed
qed

text \<open>The loop is the search along the ladder.\<close>

lemma shrink_loop_ladder:
  "(case shrink_loop enc m b q n of Inl err \<Rightarrow> Inl err | Inr (fb, q', n') \<Rightarrow> Inr fb)
     = try_ladder enc m b (ladder q n)"
proof (induction enc m b q n rule: shrink_loop.induct)
  case (1 enc m b q n)
  show ?case
  proof (cases "length_gt b (times_1024 m) \<and> js_gt q 10 \<and> n < 5")
    case True
    then have l: "ladder q n = lower_quality q # ladder (lower_quality q) (n + 1)"
      by (simp add: ladder_step)
    show ?thesis
    proof (cases "enc (lower_quality q)")
      case (Inl err)
      with True show ?thesis
        by (simp add: shrink_loop_step[OF True] l)
    next
      case (Inr b1)
      with True "1.IH"[OF True Inr] show ?thesis
        by (simp add: shrink_loop_step[OF True] l)
    qed
  next
    case False
    show ?thesis
    proof (cases "js_gt q 10 \<and> n < 5")
      case True
      with False have "\<not> length_gt b (times_1024 m)" by simp
      with True show ?thesis
        by (simp add: shrink_loop_stop[OF False] ladder_step[OF True])
    next
      case False
      then have "\<not> (length_gt b (times_1024 m) \<and> js_gt q 10 \<and> n < 5)" by simp
      then show ?thesis
        by (simp add: shrink_loop_stop ladder_stop[OF False])
    qed
  qed
qed

lemma ladder_default: "ladder (Num 85) 0 = [Num 70, Num 55, Num 40, Num 25, Num 10]"
  by (simp add: ladder_step ladder_stop)

lemma ladder_length: "length (ladder q n) \<le> 5 - n"
proof (induction q n rule: ladder.induct)
  case (1 q n)
  show ?case
  proof (cases "js_gt q 10 \<and> n < 5")
    case True
    with "1.IH"[OF True] show ?thesis by (auto simp add: ladder_step[OF True])
  next
    case False
    then show ?thesis by (simp add: ladder_stop)
  qed
qed

text \<open>The entries of the ladder in closed form.\<close>

lemma ladder_nth:
  "i < length (ladder (Num k) n) \<Longrightarrow>
     ladder (Num k) n ! i = Num (max 10 (k - 15 * (int i + 1)))"
proof (induction "Num k" n arbitrary: i k rule: ladder.induct)
  case (1 n)
  show ?case
  proof (cases "js_gt (Num k) 10 \<and> n < 5")
    case False
    with "1.prems" show ?thesis by (simp add: ladder_stop)
  next
    case True
    then have l: "ladder (Num k) n
        = Num (max 10 (k - 15)) # ladder (Num (max 10 (k - 15))) (n + 1)"
      by (simp add: ladder_step)
    show ?thesis
    proof (cases i)
      case 0
      then show ?thesis by (simp add: l)
    next
      case (Suc j)
      with "1.prems" l have j: "j < length (ladder (Num (max 10 (k - 15))) (n + 1))" by simp
      have lq: "lower_quality (Num k) = Num (max 10 (k - 15))" by simp
      from "1.hyps"[OF True lq j]
      have ih: "ladder (Num (max 10 (k - 15))) (n + 1) ! j
                  = Num (max 10 (max 10 (k - 15) - 15 * (int j + 1)))" .
      show ?thesis
      proof (cases "k - 15 < 10")
        case True
        then have "ladder (Num (max 10 (k - 15))) (n + 1) = []"
          by (simp add: ladder_stop)
        with j show ?thesis by simp
      next
        case False
        with ih Suc l show ?thesis by (simp add: max_def)
      qed
    qed
  qed
qed

section \<open>Claims about the transform pipeline\<close>

lemma size_bound_loop:
  assumes "maxSize = Some (Num M)"
    and "shrink_loop enc maxSize buf quality 0 = Inr (finalBuffer, q, attempts)"
  shows "(int (length finalBuffer) \<le> M * 1024 \<or> \<not> js_gt q 10 \<or> attempts = 5)
         \<and> attempts \<le> 5
         \<and> (quality = Num 85 \<longrightarrow>
              int (length finalBuffer) \<le> M * 1024 \<or> (q = Num 10 \<and> attempts = 5))"
proof -
  from shrink_loop_exit[OF assms(2)]
  have ex: "\<not> length_gt finalBuffer (times_1024 maxSize) \<or> \<not> js_gt q 10 \<or> attempts = 5"
    and le: "attempts \<le> 5" by simp_all
  have fits: "\<not> length_gt finalBuffer (times_1024 maxSize)
                \<longleftrightarrow> int (length finalBuffer) \<le> M * 1024"
    using assms(1) by auto
  have "q = Num 10 \<and> attempts = 5"
    if d: "quality = Num 85" and over: "\<not> int (length finalBuffer) \<le> M * 1024"
  proof -
    from assms(2) d
    have "shrink_loop enc maxSize buf (Num (85 - 15 * int 0)) 0 = Inr (finalBuffer, q, attempts)"
      by simp
    from shrink_loop_default[OF this] have q: "q = Num (85 - 15 * int attempts)" by simp
    from ex over fits have "\<not> js_gt q 10 \<or> attempts = 5" by simp
    with q le show ?thesis by auto
  qed
  with ex le fits show ?thesis by blast
qed

text \<open>
  C1 (as amended). For a request whose \<^verbatim>\<open>maxSize\<close> is a non-zero number \<open>M\<close> and
  whose first encode is longer than \<open>M * 1024\<close> bytes, the buffer that the pipeline
  returns is the one the loop ends with, and it has at most \<open>M * 1024\<close> bytes, or the
  quality is no longer above 10, or 5 re-encodes have been made; there are never more
  than 5. With the default quality 85 the last two coincide: the buffer fits, or the
  quality is 10 after exactly 5 re-encodes.
\<close>

theorem size_bound_best_effort:
  assumes "metadata_format lib input = Inr fmt"
    and "resize_step lib width = Inr w"
    and "toBuffer lib input w (outputFormat fmt) quality = Inr buf"
    and "maxSize = Some (Num M)" and "M \<noteq> 0"
    and "int (length buf) > M * 1024"
    and "transform lib input width quality maxSize = Inr (f, finalBuffer)"
  shows "\<exists>q attempts.
           shrink_loop (toBuffer lib input w (outputFormat fmt)) maxSize buf quality 0
             = Inr (finalBuffer, q, attempts)
           \<and> (int (length finalBuffer) \<le> M * 1024 \<or> \<not> js_gt q 10 \<or> attempts = 5)
           \<and> attempts \<le> 5
           \<and> (quality = Num 85 \<longrightarrow>
                int (length finalBuffer) \<le> M * 1024 \<or> (q = Num 10 \<and> attempts = 5))"
proof -
  let ?enc = "toBuffer lib input w (outputFormat fmt)"
  from assms(4,5,6) have "truthy maxSize \<and> length_gt buf (times_1024 maxSize)" by simp
  with assms(1,2,3) have "transform lib input width quality maxSize =
          (case shrink_loop ?enc maxSize buf quality 0 of
             Inl err \<Rightarrow> Inl err
           | Inr (finalBuffer, q, n) \<Rightarrow> Inr (outputFormat fmt, finalBuffer))"
    by (simp add: transform_def)
  with assms(7) obtain q attempts where
    l: "shrink_loop ?enc maxSize buf quality 0 = Inr (finalBuffer, q, attempts)"
    by (cases "shrink_loop ?enc maxSize buf quality 0") auto
  from size_bound_loop[OF assms(4) l] l show ?thesis by blast
qed

text \<open>The theorem at the sample JPEG, whose third re-encode fits one kilobyte.\<close>

theorem size_bound_best_effort_witness:
  "shrink_loop (toBuffer demo_lib [0xFF, 0xD8, 0xFF] None ''jpeg'') (Some (Num 1))
      (replicate 1700 0) (Num 85) 0
     = Inr (replicate 800 0, Num 40, 3)
   \<and> int (length (replicate 800 (0 :: 8 word))) \<le> 1 * 1024"
proof -
  have m: "metadata_format demo_lib [0xFF, 0xD8, 0xFF] = Inr (Some ''jpeg'')"
    by (simp add: demo_lib_def)
  have r: "resize_step demo_lib None = Inr None"
    by (simp add: resize_step_def)
  have b: "toBuffer demo_lib [0xFF, 0xD8, 0xFF] None (outputFormat (Some ''jpeg'')) (Num 85)
             = Inr (replicate 1700 0)"
    by (simp add: demo_lib_def outputFormat_def)
  have l: "int (length (replicate 1700 (0 :: 8 word))) > 1 * 1024" by simp
  have t: "transform demo_lib [0xFF, 0xD8, 0xFF] None (Num 85) (Some (Num 1))
             = Inr (''jpeg'', replicate 800 0)"
    by code_simp
  have h: "shrink_loop (toBuffer demo_lib [0xFF, 0xD8, 0xFF] None ''jpeg'') (Some (Num 1))
             (replicate 1700 0) (Num 85) 0
           = Inr (replicate 800 0, Num 40, 3)"
    by code_simp
  from size_bound_best_effort[OF m r b refl _ l t] h show ?thesis
    by (simp add: outputFormat_def)
qed

text \<open>
  The claim as first stated fails for the sample PNG, which has 2000 bytes at every
  quality, requested with \<^verbatim>\<open>q=100&maxSize=1\<close>: the returned buffer is too long, and
  the loop has ended after 5 attempts at quality 25, not at the floor.
\<close>

theorem size_bound_counterexample:
  "transform demo_lib [0x89, 0x50, 0x4E] None (Num 100) (Some (Num 1))
     = Inr (''png'', replicate 2000 0)
   \<and> shrink_loop (toBuffer demo_lib [0x89, 0x50, 0x4E] None ''png'') (Some (Num 1))
        (replicate 2000 0) (Num 100) 0
     = Inr (replicate 2000 0, Num 25, 5)
   \<and> \<not> int (length (replicate 2000 (0 :: 8 word))) \<le> 1 * 1024
   \<and> Num 25 \<noteq> Num 10"
  by code_simp

text \<open>
  C2 (as amended). When \<^verbatim>\<open>maxSize\<close> is truthy and the first encode is too long, the
  pipeline returns the result of the search along the ladder of the requested quality
  \<open>k\<close>: attempt \<open>i\<close> (counted from 0) re-encodes at \<open>max 10 (k - 15 (i + 1))\<close>, and the
  search stops at the first buffer that fits, when the quality is no longer above 10, or
  after 5 attempts; the last buffer is returned even if it is too long. From the default
  85 the ladder is exactly 70, 55, 40, 25, 10.
\<close>

theorem quality_ladder:
  assumes "metadata_format lib input = Inr fmt"
    and "resize_step lib width = Inr w"
    and "toBuffer lib input w (outputFormat fmt) quality = Inr buf"
    and "truthy maxSize" and "length_gt buf (times_1024 maxSize)"
  shows "transform lib input width quality maxSize =
           (case try_ladder (toBuffer lib input w (outputFormat fmt)) maxSize buf
                   (ladder quality 0) of
              Inl err \<Rightarrow> Inl err
            | Inr finalBuffer \<Rightarrow> Inr (outputFormat fmt, finalBuffer))
         \<and> length (ladder quality 0) \<le> 5
         \<and> (\<forall>k i. quality = Num k \<and> i < length (ladder quality 0) \<longrightarrow>
               ladder quality 0 ! i = Num (max 10 (k - 15 * (int i + 1))))
         \<and> (\<not> js_gt quality 10 \<longrightarrow> ladder quality 0 = [])
         \<and> (quality = Num 85 \<longrightarrow>
              ladder quality 0 = [Num 70, Num 55, Num 40, Num 25, Num 10])"
proof -
  let ?enc = "toBuffer lib input w (outputFormat fmt)"
  have "transform lib input width quality maxSize =
          (case shrink_loop ?enc maxSize buf quality 0 of
             Inl err \<Rightarrow> Inl err
           | Inr (finalBuffer, q, n) \<Rightarrow> Inr (outputFormat fmt, finalBuffer))"
    using assms by (simp add: transform_def)
  also have "\<dots> = (case try_ladder ?enc maxSize buf (ladder quality 0) of
                      Inl err \<Rightarrow> Inl err
                    | Inr finalBuffer \<Rightarrow> Inr (outputFormat fmt, finalBuffer))"
    unfolding shrink_loop_ladder[of ?enc maxSize buf quality 0, symmetric]
    by (cases "shrink_loop ?enc maxSize buf quality 0") auto
  finally have eq: "transform lib input width quality maxSize =
          (case try_ladder ?enc maxSize buf (ladder quality 0) of
             Inl err \<Rightarrow> Inl err
           | Inr finalBuffer \<Rightarrow> Inr (outputFormat fmt, finalBuffer))" .
  have len: "length (ladder quality 0) \<le> 5"
    using ladder_length[of quality 0] by simp
  have nth: "\<forall>k i. quality = Num k \<and> i < length (ladder quality 0) \<longrightarrow>
               ladder quality 0 ! i = Num (max 10 (k - 15 * (int i + 1)))"
    using ladder_nth by blast
  have stop: "\<not> js_gt quality 10 \<longrightarrow> ladder quality 0 = []"
    by (simp add: ladder_stop)
  from eq len nth stop ladder_default show ?thesis by simp
qed

text \<open>The theorem at the sample JPEG requested with \<^verbatim>\<open>maxSize=1\<close>.\<close>

theorem quality_ladder_witness:
  "transform demo_lib [0xFF, 0xD8, 0xFF] None (Num 85) (Some (Num 1))
     = Inr (''jpeg'', replicate 800 0)"
proof -
  have m: "metadata_format demo_lib [0xFF, 0xD8, 0xFF] = Inr (Some ''jpeg'')"
    by (simp add: demo_lib_def)
  have r: "resize_step demo_lib None = Inr None"
    by (simp add: resize_step_def)
  have b: "toBuffer demo_lib [0xFF, 0xD8, 0xFF] None (outputFormat (Some ''jpeg'')) (Num 85)
             = Inr (replicate 1700 0)"
    by (simp add: demo_lib_def outputFormat_def)
  have t: "truthy (Some (Num 1))" by simp
  have l: "length_gt (replicate 1700 0) (times_1024 (Some (Num 1)))" by simp
  have s: "try_ladder (toBuffer demo_lib [0xFF, 0xD8, 0xFF] None (outputFormat (Some ''jpeg'')))
             (Some (Num 1)) (replicate 1700 0) [Num 70, Num 55, Num 40, Num 25, Num 10]
           = Inr (replicate 800 0)"
    by (simp add: demo_lib_def outputFormat_def)
  from quality_ladder[OF m r b t l] s show ?thesis
    by (simp add: outputFormat_def)
qed

text \<open>
  The claim as first stated fails for the same PNG requested with
  \<^verbatim>\<open>q=25&maxSize=1\<close>: the loop stops after one attempt, at quality 10, although the
  buffer is still too long and fewer than 5 attempts have been made.
\<close>

theorem quality_ladder_counterexample:
  "transform demo_lib [0x89, 0x50, 0x4E] None (Num 25) (Some (Num 1))
     = Inr (''png'', replicate 2000 0)
   \<and> shrink_loop (toBuffer demo_lib [0x89, 0x50, 0x4E] None ''png'') (Some (Num 1))
        (replicate 2000 0) (Num 25) 0
     = Inr (replicate 2000 0, Num 10, 1)
   \<and> length_gt (replicate 2000 0) (times_1024 (Some (Num 1)))"
  by code_simp

section \<open>Paths and names\<close>

lemma path_basename_no_slash: "CHR ''/'' \<notin> set (path_basename p)"
proof -
  have "\<forall>c \<in> set (takeWhile (\<lambda>c. c \<noteq> CHR ''/'') xs). c \<noteq> CHR ''/''" for xs :: string
    by (auto dest: set_takeWhileD)
  then show ?thesis
    unfolding path_basename_def by auto
qed

lemma split_slash_single: "CHR ''/'' \<notin> set s \<Longrightarrow> split_slash s = [s]"
  by (induction s) auto

lemma path_join_segment:
  assumes "CHR ''/'' \<notin> set s"
  shows "path_join dir s = join_segment dir s"
  by (simp add: path_join_def split_slash_single[OF assms])

lemma path_join_plain:
  assumes "CHR ''/'' \<notin> set s" and "s \<noteq> []" and "s \<noteq> ''.''" and "s \<noteq> ''..''"
  shows "path_join dir s = dir @ [s]"
  using assms by (simp add: path_join_segment join_segment_def)

lemma ends_with_length: "ends_with s suf \<Longrightarrow> length suf \<le> length s"
  by (simp add: ends_with_def)



lemma isImage_length: "isImage f \<Longrightarrow> 4 \<le> length f"
  by (auto simp: isImage_def match_ext_def dest!: ends_with_length)


lemma isImage_plain: "isImage f \<Longrightarrow> f \<noteq> [] \<and> f \<noteq> ''.'' \<and> f \<noteq> ''..''"
  by (auto dest: isImage_length)

subsection \<open>Name and extension\<close>

lemma split_last_dot:
  assumes "CHR ''.'' \<in> set b"
  shows "rev (drop 1 (dropWhile (\<lambda>c. c \<noteq> CHR ''.'') (rev b)))
             @ CHR ''.'' # rev (takeWhile (\<lambda>c. c \<noteq> CHR ''.'') (rev b)) = b"
proof -
  let ?P = "\<lambda>c. c \<noteq> CHR ''.''"
  let ?xs = "rev b"
  from assms have ne: "dropWhile ?P ?xs \<noteq> []" by (simp add: dropWhile_eq_Nil_conv)
  then obtain y ys where d: "dropWhile ?P ?xs = y # ys" by (cases "dropWhile ?P ?xs") auto
  from hd_dropWhile[OF ne] have "\<not> ?P (hd (dropWhile ?P ?xs))" .
  then have y: "y = CHR ''.''" unfolding d by simp
  have "b = rev (takeWhile ?P ?xs @ dropWhile ?P ?xs)"
    by (simp only: takeWhile_dropWhile_id rev_rev_ident)
  also have "\<dots> = rev (dropWhile ?P ?xs) @ rev (takeWhile ?P ?xs)"
    by (rule rev_append)
  also have "\<dots> = rev ys @ CHR ''.'' # rev (takeWhile ?P ?xs)"
    by (simp only: d y rev.simps append_assoc append_Cons append_Nil)
  finally have eq: "b = rev ys @ CHR ''.'' # rev (takeWhile ?P ?xs)" .
  have pre: "rev (drop 1 (dropWhile ?P ?xs)) = rev ys" by (simp add: d)
  show ?thesis unfolding pre by (rule eq[symmetric])
qed



lemma parse_name_ext: "parse_name f @ parse_ext f = f"
proof (cases "parse_ext f = []")
  case True
  then show ?thesis by (simp add: parse_name_def)
next
  case False
  then have dot: "CHR ''.'' \<in> set f"
    by (auto simp: parse_ext_def Let_def split: if_splits)
  let ?pre = "rev (drop 1 (dropWhile (\<lambda>c. c \<noteq> CHR ''.'') (rev f)))"
  from False have e: "CHR ''.'' # rev (takeWhile (\<lambda>c. c \<noteq> CHR ''.'') (rev f)) = parse_ext f"
    by (auto simp: parse_ext_def Let_def split: if_splits)
  from split_last_dot[OF dot] have f: "?pre @ parse_ext f = f"
    by (simp only: e)
  then have "length ?pre + length (parse_ext f) = length f"
    by (metis length_append)
  then have "length f - length (parse_ext f) = length ?pre" by linarith
  then have "parse_name f = take (length ?pre) f"
    by (simp only: parse_name_def)
  also have "\<dots> = take (length ?pre) (?pre @ parse_ext f)" by (simp only: f)
  also have "\<dots> = ?pre" by simp
  finally show ?thesis by (simp only: f)
qed


lemma parse_name_subset: "set (parse_name f) \<subseteq> set f"
  by (metis parse_name_def set_take_subset)

lemma parse_ext_subset: "set (parse_ext f) \<subseteq> set f"
  by (metis parse_name_ext set_append sup_ge2)

subsection \<open>Numbers as text\<close>

lemma below_ten: "n < 10 \<Longrightarrow> n \<in> {0, 1, 2, 3, 4, 5, 6, 7, 8, 9 :: nat}"
  by auto

lemma digit_char_mem: "n < 10 \<Longrightarrow> digit_char n \<in> set ''0123456789''"
  by (drule below_ten) (auto simp: digit_char_def)


lemma show_nat_chars: "set (show_nat n) \<subseteq> set ''0123456789''"
proof (induction n rule: show_nat.induct)
  case (1 n)
  show ?case
  proof (cases "n < 10")
    case True
    with digit_char_mem[OF True] show ?thesis
      by (subst show_nat.simps) simp
  next
    case False
    have "n mod 10 < 10" by simp
    from digit_char_mem[OF this] "1.IH"[OF False] False show ?thesis
      by (subst show_nat.simps) simp
  qed
qed






text \<open>The characters that a rendered number or \<^verbatim>\<open>null\<close> can contain.\<close>

lemma show_nat_char: "c \<in> set (show_nat n) \<Longrightarrow> c \<in> set ''0123456789''"
  using show_nat_chars[of n] by (rule subsetD)

lemma show_int_char:
  assumes "c \<in> set (show_int i)"
  shows "c = CHR ''-'' \<or> c \<in> set ''0123456789''"
proof (cases "i < 0")
  case True
  with assms have "c = CHR ''-'' \<or> c \<in> set (show_nat (nat (- i)))"
    by (simp add: show_int_def)
  then show ?thesis using show_nat_char by blast
next
  case False
  with assms have "c \<in> set (show_nat (nat i))"
    by (simp add: show_int_def)
  then show ?thesis using show_nat_char by blast
qed

lemma show_num_char:
  assumes "c \<in> set (show_num v)"
  shows "c \<in> set ''Na-'' \<or> c \<in> set ''0123456789''"
proof (cases v)
  case NaN
  with assms show ?thesis by auto
next
  case (Num i)
  with assms have "c \<in> set (show_int i)" by simp
  from show_int_char[OF this] show ?thesis by auto
qed

lemma show_nullable_char:
  assumes "c \<in> set (show_nullable v)"
  shows "c \<in> set ''nulNa-'' \<or> c \<in> set ''0123456789''"
proof (cases v)
  case None
  with assms show ?thesis by auto
next
  case (Some x)
  with assms have "c \<in> set (show_num x)" by simp
  from show_num_char[OF this] show ?thesis by auto
qed



subsection \<open>The key determines the name and the parameters\<close>


lemma no_key_letters_nullable:
  assumes "c \<in> set ''wqm./''"
  shows "c \<notin> set (show_nullable v)"
proof
  assume "c \<in> set (show_nullable v)"
  from show_nullable_char[OF this] assms show False by auto
qed

lemma no_key_letters_num:
  assumes "c \<in> set ''wqm./''"
  shows "c \<notin> set (show_num v)"
proof
  assume "c \<in> set (show_num v)"
  from show_num_char[OF this] assms show False by auto
qed

lemma no_key_letters:
  "CHR ''w'' \<notin> set (show_nullable v)" "CHR ''m'' \<notin> set (show_nullable v)"
  "CHR ''.'' \<notin> set (show_nullable v)" "CHR ''/'' \<notin> set (show_nullable v)"
  "CHR ''q'' \<notin> set (show_num x)" "CHR ''.'' \<notin> set (show_num x)"
  "CHR ''/'' \<notin> set (show_num x)"
  by (simp_all add: no_key_letters_nullable no_key_letters_num)



section \<open>Where a request reads and writes\<close>

lemma req_filename_no_slash: "CHR ''/'' \<notin> set (req_filename r)"
  by (simp add: req_filename_def path_basename_no_slash)

lemma image_filePath:
  assumes "isImage (req_filename r)"
  shows "req_filePath e r = uploadsDir e @ [req_filename r]"
  using isImage_plain[OF assms] req_filename_no_slash[of r]
  by (simp add: req_filePath_def path_join_plain)

lemma cacheKey_has_w: "CHR ''w'' \<in> set (cacheKey f w q m)"
  by (simp add: cacheKey_def)

lemma cacheKey_no_slash:
  assumes "CHR ''/'' \<notin> set f"
  shows "CHR ''/'' \<notin> set (cacheKey f w q m)"
proof -
  from assms parse_name_subset[of f] parse_ext_subset[of f]
  have "CHR ''/'' \<notin> set (parse_name f)" "CHR ''/'' \<notin> set (parse_ext f)" by auto
  then show ?thesis
    by (simp add: cacheKey_def no_key_letters)
qed

lemma cachePath_shape:
  "req_cachePath e r = resizedCacheDir e
     @ [cacheKey (req_filename r) (req_width r) (req_quality r) (req_maxSize r)]"
proof -
  let ?k = "cacheKey (req_filename r) (req_width r) (req_quality r) (req_maxSize r)"
  have "CHR ''w'' \<in> set ?k" by (rule cacheKey_has_w)
  then have "?k \<noteq> []" "?k \<noteq> ''.''" "?k \<noteq> ''..''" by auto
  with cacheKey_no_slash[OF req_filename_no_slash] show ?thesis
    by (simp add: req_cachePath_def path_join_plain)
qed

lemma filePath_not_cached:
  assumes "isImage (req_filename r)"
  shows "req_filePath e r \<noteq> resizedCacheDir e @ [k]"
proof
  assume "req_filePath e r = resizedCacheDir e @ [k]"
  then have "length (req_filePath e r) = length (resizedCacheDir e @ [k])" by simp
  then show False
    by (simp add: image_filePath[OF assms] uploadsDir_def resizedCacheDir_def)
qed

section \<open>What the next handler does with a plain name\<close>

lemma path_basename_root_name:
  assumes "CHR ''/'' \<notin> set name"
  shows "path_basename (CHR ''/'' # name) = name"
proof (cases "name = []")
  case True
  then show ?thesis by (simp add: path_basename_def)
next
  case False
  let ?xs = "rev name"
  from False obtain y ys where r: "?xs = y # ys" by (cases ?xs) auto
  then have "y \<in> set ?xs" by simp
  then have "y \<in> set name" by simp
  with assms have y: "y \<noteq> CHR ''/''" by auto
  have all: "\<forall>c \<in> set ?xs. c \<noteq> CHR ''/''" using assms by auto
  have "dropWhile (\<lambda>c. c = CHR ''/'') (rev (CHR ''/'' # name)) = ?xs @ ''/''"
    using y by (simp add: r)
  moreover have "takeWhile (\<lambda>c. c \<noteq> CHR ''/'') (?xs @ ''/'') = ?xs"
    using all by (simp add: takeWhile_tail takeWhile_eq_all_conv)
  ultimately show ?thesis by (simp add: path_basename_def)
qed

lemma decode_without_percent:
  "CHR ''%'' \<notin> set s \<Longrightarrow> decodeURIComponent s = Some s"
  by (induction s) auto

lemma split_backslash_single: "CHR 0x5C \<notin> set s \<Longrightarrow> split_backslash s = [s]"
  by (induction s) auto

lemma plain_nameD:
  assumes "plain_name name"
  shows "name \<noteq> []" and "\<not> starts_with_dot name" and "CHR ''/'' \<notin> set name"
    and "CHR ''%'' \<notin> set name" and "CHR 0x5C \<notin> set name" and "CHR 0x00 \<notin> set name"
  using assms by (auto simp: plain_name_def list_all_iff)

lemma plain_name_not_dots:
  assumes "plain_name name"
  shows "name \<noteq> ''.''" and "name \<noteq> ''..''"
  using plain_nameD(2)[OF assms] by (auto simp: starts_with_dot_def)

lemma plain_name_filePath:
  assumes "req_path r = CHR ''/'' # name" and "plain_name name"
  shows "req_filename r = name" and "req_filePath e r = uploadsDir e @ [name]"
proof -
  from plain_nameD(3)[OF assms(2)] assms(1) show n: "req_filename r = name"
    by (simp add: req_filename_def path_basename_root_name)
  from plain_nameD(1,3)[OF assms(2)] plain_name_not_dots[OF assms(2)]
  show "req_filePath e r = uploadsDir e @ [name]"
    by (simp add: req_filePath_def n path_join_plain)
qed

lemma express_static_plain:
  assumes "req_path r = CHR ''/'' # name" and "plain_name name"
    and "fs (uploadsDir e @ [name]) = Some (File original)"
  shows "express_static e fs r = Sent (mime_lookup e (uploadsDir e @ [name])) original"
proof -
  note p = plain_nameD[OF assms(2)] plain_name_not_dots[OF assms(2)]
  from p(1) assms(1) have a: "req_path r \<noteq> ''/''" by simp
  from p(4) have b: "decodeURIComponent (CHR ''/'' # name) = Some (CHR ''/'' # name)"
    by (simp add: decode_without_percent)
  from p(6) have c: "\<not> has_nul (CHR ''/'' # name)" by (simp add: has_nul_def)
  from p have d: "below_root [] (split_slash (CHR ''/'' # name)) = Some [name]"
    by (simp add: split_slash_single)
  from p(5) p(8) have u: "\<not> list_ex up_segment [name]"
    by (simp add: up_segment_def split_backslash_single)
  from p(1,3) have "last (CHR ''/'' # name) \<noteq> CHR ''/''"
    by (metis last_ConsR last_in_set)
  then have l: "\<not> ends_in_slash (CHR ''/'' # name)" by (simp add: ends_in_slash_def)
  from p(2) have f: "\<not> dot_refused (dotfiles e) [name]"
    by (simp add: dot_refused_def dot_named_def)
  from a b c d u l f assms(1,3) show ?thesis
    by (simp add: express_static_def serve_path_def)
qed

lemma uploads_route_Next:
  "resize_middleware e fs r = (Next, fs') \<Longrightarrow> uploads_route e fs r = (express_static e fs' r, fs')"
  by (simp add: uploads_route_def)

section \<open>Claims about the serving middleware\<close>

text \<open>
  C3 (as amended). For a request whose basename names an existing file of the uploads
  directory and whose parameters do not throw when they are parsed: when the file name
  is classified as a video, or is not classified as an image, or the parameters
  \<^verbatim>\<open>w\<close> and \<^verbatim>\<open>maxSize\<close> are absent and the quality is 85, the middleware calls
  the next handler and changes nothing. The next handler resolves the whole request
  path, not the basename: the response is the bytes of the original when the request
  path is \<^verbatim>\<open>/name\<close> for the plain name of the original.
\<close>

theorem pass_through:
  assumes "existsSync fs (req_filePath e r)" and "\<not> parsing_throws r"
    and "isVideo (req_filename r) \<or> \<not> isImage (req_filename r)
         \<or> (query_w r = None \<and> query_maxSize r = None \<and> req_quality r = Num 85)"
  shows "resize_middleware e fs r = (Next, fs)
         \<and> uploads_route e fs r = (express_static e fs r, fs)
         \<and> (\<forall>name original.
               req_path r = CHR ''/'' # name \<and> plain_name name
               \<and> fs (uploadsDir e @ [name]) = Some (File original)
               \<longrightarrow> uploads_route e fs r
                     = (Sent (mime_lookup e (uploadsDir e @ [name])) original, fs))"
proof -
  from assms(3) have "skip_processing r"
    by (auto simp: skip_processing_def req_width_def req_maxSize_def parse_query_def)
  with assms(1,2) have n: "resize_middleware e fs r = (Next, fs)"
    by (simp add: resize_middleware_def)
  from uploads_route_Next[OF n] have u: "uploads_route e fs r = (express_static e fs r, fs)" .
  from n u express_static_plain[where r=r and e=e and fs=fs] show ?thesis by auto
qed

theorem pass_through_witness:
  "uploads_route demo_env demo_fs (get ''/photo.jpg'' None (Some ''85'') None)
     = (Sent ''image/jpeg'' [0xFF, 0xD8, 0xFF], demo_fs)"
proof -
  let ?r = "get ''/photo.jpg'' None (Some ''85'') None"
  have x: "existsSync demo_fs (req_filePath demo_env ?r)" by code_simp
  have t: "\<not> parsing_throws ?r" by code_simp
  have c: "isVideo (req_filename ?r) \<or> \<not> isImage (req_filename ?r)
         \<or> (query_w ?r = None \<and> query_maxSize ?r = None \<and> req_quality ?r = Num 85)"
    by code_simp
  have p: "req_path ?r = CHR ''/'' # ''photo.jpg''" by (simp add: get_def)
  have n: "plain_name ''photo.jpg''" by code_simp
  have f: "demo_fs (uploadsDir demo_env @ [''photo.jpg'']) = Some (File [0xFF, 0xD8, 0xFF])"
    by (simp add: demo_fs_def demo_env_def uploadsDir_def)
  have m: "mime_lookup demo_env (uploadsDir demo_env @ [''photo.jpg'']) = ''image/jpeg''"
    by code_simp
  from pass_through[OF x t c] p n f
  have "uploads_route demo_env demo_fs ?r
          = (Sent (mime_lookup demo_env (uploadsDir demo_env @ [''photo.jpg'']))
               [0xFF, 0xD8, 0xFF], demo_fs)"
    by blast
  with m show ?thesis by simp
qed

text \<open>
  The claim as first stated fails at \<^verbatim>\<open>/old/photo.jpg\<close>: the original
  \<^verbatim>\<open>photo.jpg\<close> is found by its basename and the middleware delegates, but the next
  handler looks for \<^verbatim>\<open>old/photo.jpg\<close> and sends nothing.
\<close>

theorem pass_through_counterexample:
  "existsSync demo_fs (req_filePath demo_env (get ''/old/photo.jpg'' None None None))
   \<and> req_filePath demo_env (get ''/old/photo.jpg'' None None None)
       = [''app'', ''uploads'', ''photo.jpg'']
   \<and> fst (resize_middleware demo_env demo_fs (get ''/old/photo.jpg'' None None None)) = Next
   \<and> fst (uploads_route demo_env demo_fs (get ''/old/photo.jpg'' None None None)) = Next"
  by code_simp


lemma original_served:
  assumes "resize_middleware e fs r = (Next, fs')"
    and "req_path r = CHR ''/'' # name" and "plain_name name"
    and "fs' (req_filePath e r) = Some (File input)"
  shows "uploads_route e fs r = (Sent (mime_lookup e (req_filePath e r)) input, fs')"
proof -
  from plain_name_filePath(2)[OF assms(2,3)] have p: "req_filePath e r = uploadsDir e @ [name]" .
  from assms(4) have "fs' (uploadsDir e @ [name]) = Some (File input)" by (simp add: p)
  from express_static_plain[where fs=fs' and e=e, OF assms(2,3) this]
    uploads_route_Next[OF assms(1)]
  show ?thesis by (simp add: p)
qed

lemma string_params_parse: "string_params r \<Longrightarrow> \<not> parsing_throws r"
  by (auto simp: string_params_def string_param_def parsing_throws_def parse_query_def
      split: option.splits qval.splits)

lemma sendFile_cases:
  "sendFile e fs p = Next \<or> (\<exists>t b. sendFile e fs p = Sent t b) \<or> (\<exists>st. sendFile e fs p = Failed st)"
  by (simp add: sendFile_def split: option.splits node.splits)

lemma sendFile_Failed:
  assumes "existsSync fs p" and "sendFile e fs p = Failed st"
  shows "send_refusal e p = Some st"
  using assms by (auto simp: sendFile_def existsSync_def split: option.splits node.splits)

lemma process_Inr_cases:
  assumes "process e fs r = Inr (resp, fs')"
  shows "existsSync fs (req_cachePath e r) \<and> resp = sendFile e fs (req_cachePath e r) \<and> fs' = fs
         \<or> \<not> existsSync fs (req_cachePath e r) \<and> (\<exists>t b. resp = Sent t b)"
  using assms
  by (auto simp: process_def split: if_splits sum.splits prod.splits)

lemma process_not_Uncaught: "process e fs r \<noteq> Inr (Uncaught, fs')"
proof
  assume a: "process e fs r = Inr (Uncaught, fs')"
  from process_Inr_cases[OF a] sendFile_cases[of e fs "req_cachePath e r"]
  show False by auto
qed

lemma process_Failed:
  assumes "process e fs r = Inr (Failed st, fs')"
  shows "existsSync fs (req_cachePath e r) \<and> send_refusal e (req_cachePath e r) = Some st"
proof -
  from process_Inr_cases[OF assms]
  have x: "existsSync fs (req_cachePath e r)"
    and s: "sendFile e fs (req_cachePath e r) = Failed st"
    by auto
  from x sendFile_Failed[OF x s] show ?thesis by simp
qed

lemma middleware_Uncaught:
  "fst (resize_middleware e fs r) = Uncaught
     \<longleftrightarrow> existsSync fs (req_filePath e r) \<and> parsing_throws r"
proof (cases "existsSync fs (req_filePath e r) \<and> \<not> parsing_throws r \<and> \<not> skip_processing r")
  case False
  then show ?thesis by (auto simp: resize_middleware_def)
next
  case True
  show ?thesis
  proof (cases "process e fs r")
    case (Inl failure)
    with True show ?thesis by (cases failure) (simp add: resize_middleware_def)
  next
    case (Inr out)
    obtain resp fs' where out: "out = (resp, fs')" by (cases out)
    with Inr process_not_Uncaught[of e fs r fs'] have "resp \<noteq> Uncaught" by auto
    with True Inr out show ?thesis by (simp add: resize_middleware_def)
  qed
qed

lemma middleware_Failed:
  assumes "fst (resize_middleware e fs r) = Failed st"
  shows "existsSync fs (req_cachePath e r) \<and> send_refusal e (req_cachePath e r) = Some st"
proof (cases "existsSync fs (req_filePath e r) \<and> \<not> parsing_throws r \<and> \<not> skip_processing r")
  case False
  with assms show ?thesis by (auto simp: resize_middleware_def split: if_splits)
next
  case True
  show ?thesis
  proof (cases "process e fs r")
    case (Inl failure)
    with True assms show ?thesis by (cases failure) (simp add: resize_middleware_def)
  next
    case (Inr out)
    obtain resp fs' where out: "out = (resp, fs')" by (cases out)
    with True Inr assms have "process e fs r = Inr (Failed st, fs')"
      by (simp add: resize_middleware_def)
    from process_Failed[OF this] show ?thesis .
  qed
qed


lemma filePath_cases:
  "req_filePath e r = uploadsDir e @ [req_filename r] \<and> req_filename r \<notin> {[], ''.'', ''..''}
   \<or> req_filePath e r = uploadsDir e \<and> req_filename r \<in> {[], ''.''}
   \<or> req_filePath e r = cwd e \<and> req_filename r = ''..''"
  using req_filename_no_slash[of r]
  by (auto simp: req_filePath_def path_join_segment join_segment_def uploadsDir_def)

lemma read_input_File: "read_input fs p = Inr input \<Longrightarrow> fs p = Some (File input)"
  by (auto simp: read_input_def split: option.splits node.splits)

lemma original_kept:
  assumes "isImage (req_filename r)"
  shows "(fs(req_cachePath e r \<mapsto> nd)) (req_filePath e r') = fs (req_filePath e r')"
proof (cases "isImage (req_filename r')")
  case True
  from filePath_not_cached[OF True, of e] show ?thesis by (simp add: cachePath_shape)
next
  case False
  have "length (req_filePath e r') \<le> length (cwd e) + 2"
    using filePath_cases[of e r'] by (auto simp: uploadsDir_def)
  moreover have "length (req_cachePath e r) = length (cwd e) + 3"
    by (simp add: cachePath_shape resizedCacheDir_def)
  ultimately have "req_filePath e r' \<noteq> req_cachePath e r" by auto
  then show ?thesis by simp
qed








text \<open>
  C5 (as amended). When the transform succeeds on a cache miss, the derivative is sent
  exactly when the cache write completes. A failing write is an exception like any other:
  the request goes to the next handler, the cache is as the failed write left it, without
  the entry or with a truncated one, and a request path \<^verbatim>\<open>/name\<close> with the plain name
  of the original is answered with the original.
\<close>

theorem cache_write_failure:
  assumes "existsSync fs (req_filePath e r)" and "\<not> parsing_throws r"
    and "\<not> skip_processing r" and "\<not> existsSync fs (req_cachePath e r)"
    and "read_input fs (req_filePath e r) = Inr input"
    and "transform (sharp e) input (req_width r) (req_quality r) (req_maxSize r) = Inr (fmt, buf)"
  shows "(write_outcome e (req_cachePath e r) buf = Written \<longrightarrow>
            resize_middleware e fs r
              = (Sent (content_type fmt) buf, fs(req_cachePath e r \<mapsto> File buf)))
         \<and> (write_outcome e (req_cachePath e r) buf = Refused \<longrightarrow>
            resize_middleware e fs r = (Next, fs))
         \<and> (\<forall>k. write_outcome e (req_cachePath e r) buf = Torn k \<longrightarrow>
            resize_middleware e fs r = (Next, fs(req_cachePath e r \<mapsto> File (take k buf))))
         \<and> (write_outcome e (req_cachePath e r) buf \<noteq> Written \<longrightarrow>
            fst (resize_middleware e fs r) = Next
            \<and> fst (uploads_route e fs r) = express_static e (snd (resize_middleware e fs r)) r
            \<and> (\<forall>name. req_path r = CHR ''/'' # name \<and> plain_name name \<longrightarrow>
                  fst (uploads_route e fs r) = Sent (mime_lookup e (req_filePath e r)) input))"
proof -
  let ?c = "req_cachePath e r"
  from assms(3) have img: "isImage (req_filename r)" by (simp add: skip_processing_def)
  from read_input_File[OF assms(5)] have o: "fs (req_filePath e r) = Some (File input)" .
  have w: "resize_middleware e fs r = (Sent (content_type fmt) buf, fs(?c \<mapsto> File buf))"
    if "write_outcome e ?c buf = Written"
    using assms that by (simp add: resize_middleware_def process_def writeFileSync_def)
  have n: "resize_middleware e fs r = (Next, fs)" if "write_outcome e ?c buf = Refused"
    using assms that by (simp add: resize_middleware_def process_def writeFileSync_def)
  have t: "resize_middleware e fs r = (Next, fs(?c \<mapsto> File (take k buf)))"
    if "write_outcome e ?c buf = Torn k" for k
    using assms that by (simp add: resize_middleware_def process_def writeFileSync_def)
  have f: "fst (resize_middleware e fs r) = Next
            \<and> fst (uploads_route e fs r) = express_static e (snd (resize_middleware e fs r)) r
            \<and> (\<forall>name. req_path r = CHR ''/'' # name \<and> plain_name name \<longrightarrow>
                  fst (uploads_route e fs r) = Sent (mime_lookup e (req_filePath e r)) input)"
    if nw: "write_outcome e ?c buf \<noteq> Written"
  proof -
    obtain fs' where m: "resize_middleware e fs r = (Next, fs')"
      and k: "fs' (req_filePath e r) = Some (File input)"
    proof (cases "write_outcome e ?c buf")
      case Written
      with nw show ?thesis by simp
    next
      case Refused
      from n[OF Refused] o that show ?thesis by blast
    next
      case (Torn k)
      from original_kept[OF img, of fs e _ r] o
      have "(fs(?c \<mapsto> File (take k buf))) (req_filePath e r) = Some (File input)" by simp
      with t[OF Torn] that show ?thesis by blast
    qed
    from uploads_route_Next[OF m] have u: "uploads_route e fs r = (express_static e fs' r, fs')" .
    have "fst (uploads_route e fs r) = Sent (mime_lookup e (req_filePath e r)) input"
      if "req_path r = CHR ''/'' # name" "plain_name name" for name
      using original_served[OF m that k] by simp
    with m u show ?thesis by simp
  qed
  from w n t f show ?thesis by blast
qed

theorem cache_write_failure_witness:
  "uploads_route full_disk_env demo_fs (get ''/photo.jpg'' (Some ''400'') (Some ''10'') None)
     = (Sent ''image/jpeg'' [0xFF, 0xD8, 0xFF],
        demo_fs([''app'', ''uploads'', ''.cache'', ''photo-w400-q10-mnull.jpg''] \<mapsto> File []))"
proof -
  let ?r = "get ''/photo.jpg'' (Some ''400'') (Some ''10'') None"
  have 1: "existsSync demo_fs (req_filePath full_disk_env ?r)" by code_simp
  have p: "\<not> parsing_throws ?r" by code_simp
  have 2: "\<not> skip_processing ?r" by code_simp
  have 3: "\<not> existsSync demo_fs (req_cachePath full_disk_env ?r)" by code_simp
  have 4: "read_input demo_fs (req_filePath full_disk_env ?r) = Inr [0xFF, 0xD8, 0xFF]"
    by code_simp
  have 5: "transform (sharp full_disk_env) [0xFF, 0xD8, 0xFF] (req_width ?r) (req_quality ?r)
             (req_maxSize ?r) = Inr (''jpeg'', replicate 200 0)"
    by code_simp
  have w: "write_outcome full_disk_env (req_cachePath full_disk_env ?r) (replicate 200 0) = Torn 0"
    by (simp add: full_disk_env_def)
  have c: "req_cachePath full_disk_env ?r
             = [''app'', ''uploads'', ''.cache'', ''photo-w400-q10-mnull.jpg'']"
    by code_simp
  have q: "req_path ?r = CHR ''/'' # ''photo.jpg''" by (simp add: get_def)
  have n: "plain_name ''photo.jpg''" by code_simp
  have m: "mime_lookup full_disk_env (req_filePath full_disk_env ?r) = ''image/jpeg''"
    by code_simp
  note inst = cache_write_failure[OF 1 p 2 3 4 5]
  from w have nw: "write_outcome full_disk_env (req_cachePath full_disk_env ?r) (replicate 200 0)
      \<noteq> Written"
    by simp
  from inst w have "resize_middleware full_disk_env demo_fs ?r
      = (Next, demo_fs(req_cachePath full_disk_env ?r \<mapsto> File (take 0 (replicate 200 0))))"
    by blast
  then have a: "resize_middleware full_disk_env demo_fs ?r
      = (Next, demo_fs(req_cachePath full_disk_env ?r \<mapsto> File []))"
    by simp
  from inst nw have "\<forall>name. req_path ?r = CHR ''/'' # name \<and> plain_name name \<longrightarrow>
      fst (uploads_route full_disk_env demo_fs ?r)
        = Sent (mime_lookup full_disk_env (req_filePath full_disk_env ?r)) [0xFF, 0xD8, 0xFF]"
    by blast
  with q n have b: "fst (uploads_route full_disk_env demo_fs ?r)
      = Sent (mime_lookup full_disk_env (req_filePath full_disk_env ?r)) [0xFF, 0xD8, 0xFF]"
    by blast
  from a have "snd (uploads_route full_disk_env demo_fs ?r)
      = demo_fs(req_cachePath full_disk_env ?r \<mapsto> File [])"
    by (simp add: uploads_route_def)
  with b m c show ?thesis by (simp add: prod_eq_iff)
qed

text \<open>
  The claim as first stated fails on a full disk: the transform of \<^verbatim>\<open>photo.jpg\<close>
  succeeds, yet the middleware delegates and the response is the original, not the
  derivative.
\<close>

theorem cache_write_failure_counterexample:
  "transform demo_lib [0xFF, 0xD8, 0xFF] (Some (Num 400)) (Num 10) None
     = Inr (''jpeg'', replicate 200 0)
   \<and> fst (resize_middleware full_disk_env demo_fs
            (get ''/photo.jpg'' (Some ''400'') (Some ''10'') None)) = Next
   \<and> fst (uploads_route full_disk_env demo_fs
            (get ''/photo.jpg'' (Some ''400'') (Some ''10'') None))
       = Sent ''image/jpeg'' [0xFF, 0xD8, 0xFF]"
  by code_simp

text \<open>
  C6 (the code at the failing input). The sample GIF is requested twice with
  \<^verbatim>\<open>w=400&q=10\<close>. The first response, computed, has the type of the output codec,
  \<^verbatim>\<open>image/jpeg\<close>; the second, the same bytes from the cache, has the type of the
  cache file's extension, \<^verbatim>\<open>image/gif\<close>.
\<close>

theorem cache_hit_content_type:
  "fst (resize_middleware demo_env demo_fs (get ''/anim.gif'' (Some ''400'') (Some ''10'') None))
     = Sent ''image/jpeg'' (replicate 200 0)
   \<and> fst (resize_middleware demo_env
            (snd (resize_middleware demo_env demo_fs
                    (get ''/anim.gif'' (Some ''400'') (Some ''10'') None)))
            (get ''/anim.gif'' (Some ''400'') (Some ''10'') None))
       = Sent ''image/gif'' (replicate 200 0)"
  by code_simp

text \<open>
  C8. The cache path of a request is a function of the file name and of the parsed
  width, quality and maximum size alone: requests that agree on these four have the
  same key and the same cache path, whatever else differs.
\<close>

theorem cache_key_deterministic:
  assumes "req_filename r1 = req_filename r2" and "req_width r1 = req_width r2"
    and "req_quality r1 = req_quality r2" and "req_maxSize r1 = req_maxSize r2"
  shows "cacheKey (req_filename r1) (req_width r1) (req_quality r1) (req_maxSize r1)
           = cacheKey (req_filename r2) (req_width r2) (req_quality r2) (req_maxSize r2)
         \<and> req_cachePath e r1 = req_cachePath e r2"
  using assms by (simp add: req_cachePath_def)

theorem cache_key_deterministic_witness:
  "cacheKey (req_filename (get ''/old/photo.jpg'' (Some '' 400px'') (Some ''85'') (Some [])))
      (Some (Num 400)) (Num 85) None = ''photo-w400-q85-mnull.jpg''
   \<and> req_cachePath demo_env (get ''/photo.jpg'' (Some ''400'') None None)
     = req_cachePath demo_env (get ''/old/photo.jpg'' (Some '' 400px'') (Some ''85'') (Some []))"
proof -
  let ?r1 = "get ''/photo.jpg'' (Some ''400'') None None"
  let ?r2 = "get ''/old/photo.jpg'' (Some '' 400px'') (Some ''85'') (Some [])"
  have 1: "req_filename ?r1 = req_filename ?r2" by code_simp
  have 2: "req_width ?r1 = req_width ?r2" by code_simp
  have 3: "req_quality ?r1 = req_quality ?r2" by code_simp
  have 4: "req_maxSize ?r1 = req_maxSize ?r2" by code_simp
  have k: "cacheKey (req_filename ?r2) (Some (Num 400)) (Num 85) None = ''photo-w400-q85-mnull.jpg''"
    by code_simp
  from cache_key_deterministic[OF 1 2 3 4, of demo_env] k show ?thesis by simp
qed

text \<open>
  C9 (as amended). A malformed string parameter is neither clamped nor replaced by a
  default: \<^verbatim>\<open>NaN\<close> is used as the value. It is not rejected either: with string
  parameters no exception leaves the handler, and an error status comes only from
  \<^verbatim>\<open>res.sendFile\<close> refusing the cache path on a hit. When \<^verbatim>\<open>w\<close> is a string that is
  not numeric, the middleware decides on pass-through as if \<^verbatim>\<open>w\<close> were absent, does
  not resize, and computes the same derivative; but the key contains \<^verbatim>\<open>wNaN\<close> where
  the key without \<^verbatim>\<open>w\<close> contains \<^verbatim>\<open>wnull\<close>, so the two requests use different cache
  entries.
\<close>

theorem non_numeric_width:
  assumes "s \<noteq> []" and "parseInt s = NaN"
  shows "req_width (r\<lparr>query_w := Some (QStr s)\<rparr>) = Some NaN
         \<and> req_quality (r\<lparr>query_q := Some (QStr s)\<rparr>) = NaN
         \<and> req_maxSize (r\<lparr>query_maxSize := Some (QStr s)\<rparr>) = Some NaN
         \<and> (\<forall>r'. string_params r' \<longrightarrow>
               fst (resize_middleware e fs r') \<noteq> Uncaught
               \<and> (\<forall>st. fst (resize_middleware e fs r') = Failed st \<longrightarrow>
                     existsSync fs (req_cachePath e r')
                     \<and> send_refusal e (req_cachePath e r') = Some st))
         \<and> parsing_throws (r\<lparr>query_w := Some (QStr s)\<rparr>) = parsing_throws (r\<lparr>query_w := None\<rparr>)
         \<and> skip_processing (r\<lparr>query_w := Some (QStr s)\<rparr>) = skip_processing (r\<lparr>query_w := None\<rparr>)
         \<and> resize_step lib (req_width (r\<lparr>query_w := Some (QStr s)\<rparr>)) = Inr None
         \<and> resize_step lib (req_width (r\<lparr>query_w := None\<rparr>)) = Inr None
         \<and> transform lib input (req_width (r\<lparr>query_w := Some (QStr s)\<rparr>)) q m
             = transform lib input (req_width (r\<lparr>query_w := None\<rparr>)) q m
         \<and> req_cachePath e (r\<lparr>query_w := Some (QStr s)\<rparr>) \<noteq> req_cachePath e (r\<lparr>query_w := None\<rparr>)"
proof -
  let ?r1 = "r\<lparr>query_w := Some (QStr s)\<rparr>" and ?r0 = "r\<lparr>query_w := None\<rparr>"
  from assms have w1: "req_width ?r1 = Some NaN" by (simp add: req_width_def parse_query_def)
  from assms have q1: "req_quality (r\<lparr>query_q := Some (QStr s)\<rparr>) = NaN"
    by (simp add: req_quality_def parse_query_def)
  from assms have m1: "req_maxSize (r\<lparr>query_maxSize := Some (QStr s)\<rparr>) = Some NaN"
    by (simp add: req_maxSize_def parse_query_def)
  have w0: "req_width ?r0 = None" by (simp add: req_width_def parse_query_def)
  have same: "req_filename ?r1 = req_filename ?r0" "req_quality ?r1 = req_quality ?r0"
    "req_maxSize ?r1 = req_maxSize ?r0"
    by (simp_all add: req_filename_def req_quality_def req_maxSize_def)
  have a: "fst (resize_middleware e fs r') \<noteq> Uncaught
               \<and> (\<forall>st. fst (resize_middleware e fs r') = Failed st \<longrightarrow>
                     existsSync fs (req_cachePath e r')
                     \<and> send_refusal e (req_cachePath e r') = Some st)"
    if "string_params r'" for r'
    using string_params_parse[OF that] middleware_Uncaught[of e fs r'] middleware_Failed[of e fs r']
    by blast
  from assms have p: "parsing_throws ?r1 = parsing_throws ?r0"
    by (simp add: parsing_throws_def parse_query_def)
  have b: "skip_processing ?r1 = skip_processing ?r0"
    by (simp add: skip_processing_def w1 w0 same)
  have c: "resize_step lib (req_width ?r1) = Inr None" "resize_step lib (req_width ?r0) = Inr None"
    by (simp_all add: resize_step_def w1 w0)
  have d: "transform lib input (req_width ?r1) q m = transform lib input (req_width ?r0) q m"
    unfolding transform_def c by (rule refl)
  have "cacheKey (req_filename ?r1) (req_width ?r1) (req_quality ?r1) (req_maxSize ?r1)
          \<noteq> cacheKey (req_filename ?r0) (req_width ?r0) (req_quality ?r0) (req_maxSize ?r0)"
    by (simp add: cacheKey_def w1 w0 same)
  then have f: "req_cachePath e ?r1 \<noteq> req_cachePath e ?r0"
    by (simp add: cachePath_shape)
  from w1 q1 m1 a p b c d f show ?thesis by blast
qed

theorem non_numeric_width_witness:
  "transform demo_lib [0xFF, 0xD8, 0xFF]
      (req_width (get ''/photo.jpg'' (Some ''abc'') (Some ''50'') None)) (Num 50) None
     = transform demo_lib [0xFF, 0xD8, 0xFF]
         (req_width (get ''/photo.jpg'' None (Some ''50'') None)) (Num 50) None
   \<and> \<not> skip_processing (get ''/photo.jpg'' (Some ''abc'') (Some ''50'') None)
   \<and> fst (resize_middleware demo_env demo_fs (get ''/photo.jpg'' (Some ''abc'') (Some ''50'') None))
       \<noteq> Uncaught"
proof -
  let ?r = "get ''/photo.jpg'' None (Some ''50'') None"
  let ?r1 = "get ''/photo.jpg'' (Some ''abc'') (Some ''50'') None"
  have 1: "''abc'' \<noteq> []" by simp
  have 2: "parseInt ''abc'' = NaN" by code_simp
  have u1: "?r\<lparr>query_w := Some (QStr ''abc'')\<rparr> = ?r1" by (simp add: get_def)
  have u0: "?r\<lparr>query_w := None\<rparr> = ?r" by (simp add: get_def)
  have s: "\<not> skip_processing ?r" by code_simp
  have p: "string_params ?r1" by code_simp
  note inst = non_numeric_width[OF 1 2, of ?r demo_env demo_fs demo_lib "[0xFF, 0xD8, 0xFF]"
      "Num 50" None]
  from inst p have x: "fst (resize_middleware demo_env demo_fs ?r1) \<noteq> Uncaught" by blast
  from inst[unfolded u1 u0] have "skip_processing ?r1 = skip_processing ?r"
    and "transform demo_lib [0xFF, 0xD8, 0xFF] (req_width ?r1) (Num 50) None
          = transform demo_lib [0xFF, 0xD8, 0xFF] (req_width ?r) (Num 50) None"
    by blast+
  with s x show ?thesis by simp
qed

text \<open>
  The claim as first stated fails at \<^verbatim>\<open>/photo.jpg?w=abc&q=50\<close>: its cache entry is not
  the one of \<^verbatim>\<open>/photo.jpg?q=50\<close>.
\<close>

theorem non_numeric_width_counterexample:
  "req_cachePath demo_env (get ''/photo.jpg'' (Some ''abc'') (Some ''50'') None)
     = [''app'', ''uploads'', ''.cache'', ''photo-wNaN-q50-mnull.jpg'']
   \<and> req_cachePath demo_env (get ''/photo.jpg'' None (Some ''50'') None)
     = [''app'', ''uploads'', ''.cache'', ''photo-wnull-q50-mnull.jpg'']"
  by code_simp


section \<open>Confinement and the cache\<close>

lemma response_depends_on_two_paths:
  assumes "fs (req_filePath e r) = fs' (req_filePath e r)"
    and "fs (req_cachePath e r) = fs' (req_cachePath e r)"
  shows "fst (resize_middleware e fs r) = fst (resize_middleware e fs' r)"
  using assms
  by (auto simp: resize_middleware_def process_def existsSync_def read_input_def sendFile_def
      writeFileSync_def
      split: sum.splits prod.splits option.splits node.splits write_result.splits)

lemma only_cache_written:
  assumes "p \<noteq> req_cachePath e r"
  shows "snd (resize_middleware e fs r) p = fs p"
  using assms
  by (auto simp: resize_middleware_def process_def writeFileSync_def
      split: sum.splits prod.splits if_splits write_result.splits)

lemma no_image_no_change:
  assumes "\<not> isImage (req_filename r)"
  shows "snd (resize_middleware e fs r) = fs"
    and "fst (resize_middleware e fs r) = Next \<or> fst (resize_middleware e fs r) = Uncaught"
    and "\<not> parsing_throws r \<Longrightarrow> resize_middleware e fs r = (Next, fs)"
  using assms by (simp_all add: resize_middleware_def skip_processing_def)

text \<open>
  C10 (as amended). The path whose existence is checked is the uploads directory joined
  with the basename of the request path: a direct child of the uploads directory, unless
  the basename is empty, \<^verbatim>\<open>.\<close> or \<^verbatim>\<open>..\<close>, when it is the uploads directory or its
  parent; then nothing is read or written, and the request goes to the next handler,
  unless the parsing of a parameter throws. The response depends on the file system only
  through that path and the cache path, which is a direct child of the cache directory
  and the only path ever written.
\<close>

theorem basename_confinement:
  "(req_filename r \<notin> {[], ''.'', ''..''} \<longrightarrow>
      directly_inside (uploadsDir e) (req_filePath e r))
   \<and> (req_filename r \<in> {[], ''.'', ''..''} \<longrightarrow>
      (req_filePath e r = uploadsDir e \<or> req_filePath e r = cwd e)
      \<and> snd (resize_middleware e fs r) = fs
      \<and> (fst (resize_middleware e fs r) = Next \<or> fst (resize_middleware e fs r) = Uncaught)
      \<and> (\<not> parsing_throws r \<longrightarrow> resize_middleware e fs r = (Next, fs)))
   \<and> (resize_middleware e fs r \<noteq> (Next, fs) \<and> fst (resize_middleware e fs r) \<noteq> Uncaught \<longrightarrow>
      directly_inside (uploadsDir e) (req_filePath e r))
   \<and> directly_inside (resizedCacheDir e) (req_cachePath e r)
   \<and> (fs (req_filePath e r) = fs' (req_filePath e r)
      \<and> fs (req_cachePath e r) = fs' (req_cachePath e r) \<longrightarrow>
      fst (resize_middleware e fs r) = fst (resize_middleware e fs' r))
   \<and> (\<forall>p. p \<noteq> req_cachePath e r \<longrightarrow> snd (resize_middleware e fs r) p = fs p)"
proof -
  have a: "directly_inside (uploadsDir e) (req_filePath e r)"
    if "req_filename r \<notin> {[], ''.'', ''..''}"
    using that filePath_cases[of e r] by (auto simp: directly_inside_def)
  have ni: "\<not> isImage (req_filename r)" if "req_filename r \<in> {[], ''.'', ''..''}"
    using that isImage_plain[of "req_filename r"] by auto
  have b: "req_filePath e r = uploadsDir e \<or> req_filePath e r = cwd e"
    if "req_filename r \<in> {[], ''.'', ''..''}"
    using that filePath_cases[of e r] by auto
  have skip: "snd (resize_middleware e fs r) = fs
      \<and> (fst (resize_middleware e fs r) = Next \<or> fst (resize_middleware e fs r) = Uncaught)
      \<and> (\<not> parsing_throws r \<longrightarrow> resize_middleware e fs r = (Next, fs))"
    if "req_filename r \<in> {[], ''.'', ''..''}"
    using no_image_no_change[OF ni[OF that], of e fs] by blast
  have t: "directly_inside (uploadsDir e) (req_filePath e r)"
    if n: "resize_middleware e fs r \<noteq> (Next, fs)" and u: "fst (resize_middleware e fs r) \<noteq> Uncaught"
  proof (rule a, rule notI)
    assume m: "req_filename r \<in> {[], ''.'', ''..''}"
    from skip[OF m] u have "fst (resize_middleware e fs r) = Next"
      and "snd (resize_middleware e fs r) = fs" by simp_all
    then have "resize_middleware e fs r = (Next, fs)" by (simp add: prod_eq_iff)
    with n show False by simp
  qed
  have c: "directly_inside (resizedCacheDir e) (req_cachePath e r)"
    by (simp add: cachePath_shape directly_inside_def)
  from a b c skip t response_depends_on_two_paths[of fs e r fs'] only_cache_written[of _ e r fs]
  show ?thesis by blast
qed

text \<open>The theorem at a request path with directory components around the sample JPEG.\<close>

theorem basename_confinement_witness:
  "req_filePath demo_env (get ''/../../etc/photo.jpg'' (Some ''400'') None None)
     = [''app'', ''uploads'', ''photo.jpg'']
   \<and> directly_inside (uploadsDir demo_env)
        (req_filePath demo_env (get ''/../../etc/photo.jpg'' (Some ''400'') None None))"
proof -
  let ?r = "get ''/../../etc/photo.jpg'' (Some ''400'') None None"
  have n: "req_filename ?r \<notin> {[], ''.'', ''..''}" by code_simp
  have p: "req_filePath demo_env ?r = [''app'', ''uploads'', ''photo.jpg'']" by code_simp
  from basename_confinement[of ?r demo_env demo_fs demo_fs] n p show ?thesis by blast
qed

text \<open>
  The claim as first stated fails at the request path \<^verbatim>\<open>/..\<close>: the existence check
  addresses the parent of the uploads directory, and finds it.
\<close>

theorem basename_confinement_counterexample:
  "req_filePath demo_env (get ''/..'' None None None) = [''app'']
   \<and> \<not> directly_inside (uploadsDir demo_env) (req_filePath demo_env (get ''/..'' None None None))
   \<and> existsSync demo_fs (req_filePath demo_env (get ''/..'' None None None))"
  by code_simp








end
